theory Spec2Isabelle
  imports Complex_Main
begin

section \<open>Python and numpy primitives used by scripts/rl_walk.py\<close>

text \<open>
  Python floats are modelled as \<open>real\<close>: rounding is not modelled, and no property below
  depends on the numeric value of a product or a difference beyond \<open>max x 0\<close>.
  An exception is a value: \<open>KeyboardInterrupt\<close> derives from \<open>BaseException\<close> only, every
  other exception met here (queue.Empty, ValueError, ZeroDivisionError, driver and engine
  failures) derives from \<open>Exception\<close> and carries its message.
\<close>

datatype exn = KeyboardInterrupt | Exception string

text \<open>
  Elementwise numpy arithmetic on two one-dimensional arrays: equal shapes combine
  pointwise, a one-element array is broadcast, anything else raises ValueError.
\<close>

definition np_broadcast ::
  "(real \<Rightarrow> real \<Rightarrow> real) \<Rightarrow> real list \<Rightarrow> real list \<Rightarrow> exn + real list" where
  "np_broadcast f xs ys =
     (if length xs = length ys then Inr (map2 f xs ys)
      else if length xs = 1 then Inr (map (f (hd xs)) ys)
      else if length ys = 1 then Inr (map (\<lambda>x. f x (hd ys)) xs)
      else Inl (Exception ''ValueError: operands could not be broadcast together''))"

text \<open>\<open>np.zeros(n)\<close> and \<open>np.zeros((r, c)).tolist()\<close>.\<close>

definition np_zeros :: "nat \<Rightarrow> real list" where
  "np_zeros n = replicate n 0"

definition np_zeros2 :: "nat \<Rightarrow> nat \<Rightarrow> real list list" where
  "np_zeros2 r c = replicate r (np_zeros c)"

text \<open>
  \<open>np.array(rows).flatten()\<close>: a rectangular list of rows becomes the rows one after the
  other; rows of different lengths raise ValueError (inhomogeneous shape).
\<close>

definition np_flatten :: "real list list \<Rightarrow> exn + real list" where
  "np_flatten rows =
     (if list_all (\<lambda>r. length r = length (hd rows)) rows then Inr (concat rows)
      else Inl (Exception ''ValueError: inhomogeneous shape''))"

text \<open>The slice \<open>xs[-n:]\<close> for \<open>n \<ge> 0\<close>; \<open>xs[-0:]\<close> is \<open>xs[0:]\<close>, the whole list.\<close>

definition py_last_slice :: "nat \<Rightarrow> 'a list \<Rightarrow> 'a list" where
  "py_last_slice n xs = (if n = 0 then xs else drop (length xs - n) xs)"

text \<open>
  \<open>queue.Queue(maxsize)\<close>: a FIFO of at most \<open>maxsize\<close> items (unbounded when
  \<open>maxsize \<le> 0\<close>). \<open>put(item)\<close> with the default \<open>block=True\<close> waits while the queue is
  full: \<open>None\<close> below is the caller suspended inside \<open>put\<close>, the queue unchanged.
  \<open>get(False)\<close> never waits: it raises queue.Empty on an empty queue.
\<close>

record 'a py_queue =
  maxsize :: int
  items :: "'a list"

definition Queue :: "int \<Rightarrow> 'a py_queue" where
  "Queue n = \<lparr>maxsize = n, items = []\<rparr>"

definition queue_full :: "'a py_queue \<Rightarrow> bool" where
  "queue_full q = (0 < maxsize q \<and> maxsize q \<le> int (length (items q)))"

definition queue_put :: "'a py_queue \<Rightarrow> 'a \<Rightarrow> 'a py_queue option" where
  "queue_put q v = (if queue_full q then None else Some (q\<lparr>items := items q @ [v]\<rparr>))"

definition queue_get_nowait :: "'a py_queue \<Rightarrow> exn + ('a \<times> 'a py_queue)" where
  "queue_get_nowait q =
     (case items q of
        [] \<Rightarrow> Inl (Exception ''Empty'')
      | v # rest \<Rightarrow> Inr (v, q\<lparr>items := rest\<rparr>))"

section \<open>Collaborators that are not part of scripts/\<close>

text \<open>
  The helpers imported from \<open>mini_bdx_runtime.rl_utils\<close> (joint reordering, quaternion
  rotation, the action dictionary, the low-pass action filter with state \<open>'f\<close>) are
  parameters of the model.
\<close>

record 'f rl_utils =
  mujoco_to_isaac :: "real list \<Rightarrow> real list"
  isaac_to_mujoco :: "real list \<Rightarrow> real list"
  quat_rotate_inverse :: "real list \<Rightarrow> real list \<Rightarrow> real list"
  make_action_dict :: "real list \<Rightarrow> string list \<Rightarrow> (string \<times> real) list"
  mujoco_joints_order :: "string list"
  LowPassActionFilter :: "real \<Rightarrow> real \<Rightarrow> 'f"
  lpf_push :: "'f \<Rightarrow> real list \<Rightarrow> 'f"
  lpf_get_filtered_action :: "'f \<Rightarrow> real list"

text \<open>
  What the outside world answers during one pass of the control loop: the value the
  sampler thread offers to the queue before the scheduler reads it (if any), the servo
  bus, the two inference engines, the command client, the measured duration of the pass,
  and whether Ctrl-C arrives during the pacing sleep. Every external call may raise.
\<close>

record iter_env =
  sampler_offer :: "real list option"
  get_present_positions :: "exn + real list"
  get_present_velocities :: "exn + real list"
  adaptation_infer :: "real list \<Rightarrow> exn + real list"
  policy_infer :: "real list \<Rightarrow> exn + real list"
  set_position_all :: "(string \<times> real) list \<Rightarrow> exn option"
  get_command :: "exn + real list"
  took :: real
  sleep_interrupted :: bool

section \<open>The RLWalk object\<close>

record config =
  cfg_control_freq :: real
  cfg_debug_no_imu :: bool
  cfg_action_scale :: real
  cfg_cutoff_frequency :: real
  cfg_commands :: bool
  cfg_pitch_bias :: real
  cfg_rma :: bool

text \<open>
  \<open>last_imu_data\<close> holds a Python value that the code compares with \<open>None\<close>:
  \<open>None\<close> here is Python's \<open>None\<close>. Attributes that \<open>__init__\<close> creates in one mode only
  (\<open>obs_history\<close>, \<open>imu_queue\<close>, \<open>last_imu_data\<close>) have the same initial value in the
  other mode, where the code never reads them.
\<close>

record 'f rl_walk =
  debug_no_imu :: bool
  commands :: bool
  pitch_bias :: real
  rma :: bool
  num_obs :: nat
  obs_history_size :: nat
  obs_history :: "real list list"
  last_imu_data :: "real list option"
  imu_queue :: "real list py_queue"
  control_freq :: real
  linearVelocityScale :: real
  angularVelocityScale :: real
  dof_pos_scale :: real
  dof_vel_scale :: real
  action_scale :: real
  prev_action :: "real list"
  mujoco_init_pos :: "real list"
  isaac_init_pos :: "real list"
  action_filter :: 'f

text \<open>\<open>RLWalk.__init__\<close>; \<open>hwi_init_pos\<close> is \<open>list(self.hwi.init_pos.values())\<close>.\<close>

definition init :: "'f rl_utils \<Rightarrow> config \<Rightarrow> real list \<Rightarrow> 'f rl_walk" where
  "init u c hwi_init_pos =
     \<lparr>debug_no_imu = cfg_debug_no_imu c,
      commands = cfg_commands c,
      pitch_bias = cfg_pitch_bias c,
      rma = cfg_rma c,
      num_obs = 51,
      obs_history_size = 15,
      obs_history = np_zeros2 15 51,
      last_imu_data = Some [0, 0, 0, 0],
      imu_queue = Queue 1,
      control_freq = cfg_control_freq c,
      linearVelocityScale = 2,
      angularVelocityScale = 1 / 4,
      dof_pos_scale = 1,
      dof_vel_scale = 1 / 20,
      action_scale = cfg_action_scale c,
      prev_action = np_zeros 15,
      mujoco_init_pos = hwi_init_pos @ [0, 0],
      isaac_init_pos = mujoco_to_isaac u (hwi_init_pos @ [0, 0]),
      action_filter = LowPassActionFilter u (cfg_control_freq c) (cfg_cutoff_frequency c)\<rparr>"

text \<open>\<open>RLWalk.get_imu_data\<close>: a non-blocking read; \<open>except Exception: pass\<close> keeps the last value.\<close>

definition get_imu_data :: "'f rl_walk \<Rightarrow> real list option \<times> 'f rl_walk" where
  "get_imu_data self =
     (let self1 =
            (case queue_get_nowait (imu_queue self) of
               Inr (v, q) \<Rightarrow> self\<lparr>last_imu_data := Some v, imu_queue := q\<rparr>
             | Inl (Exception m) \<Rightarrow> self
             | Inl KeyboardInterrupt \<Rightarrow> self)
      in (last_imu_data self1, self1))"

text \<open>
  \<open>RLWalk.get_obs\<close>. The result is the raised exception, or the returned value
  (\<open>None\<close> or the observation), with the object as mutated and the lines printed.
\<close>

definition get_obs ::
  "'f rl_utils \<Rightarrow> iter_env \<Rightarrow> 'f rl_walk \<Rightarrow> real list
     \<Rightarrow> (exn + real list option) \<times> 'f rl_walk \<times> string list" where
  "get_obs u e self cmds =
     (let (orientation_quat, self1) =
            (if \<not> debug_no_imu self then get_imu_data self
             else (Some [1, 0, 0, 0], self))
      in case orientation_quat of
           None \<Rightarrow> (Inr None, self1, [''IMU ERROR''])
         | Some q \<Rightarrow>
            (case get_present_positions e of
               Inl x \<Rightarrow> (Inl x, self1, [])
             | Inr dof_pos \<Rightarrow>
                (case get_present_velocities e of
                   Inl x \<Rightarrow> (Inl x, self1, [])
                 | Inr dof_vel \<Rightarrow>
                    (case np_broadcast (-) dof_pos (take 13 (mujoco_init_pos self1)) of
                       Inl x \<Rightarrow> (Inl x, self1, [])
                     | Inr d \<Rightarrow>
                        (let dof_pos_scaled = map (\<lambda>x. x * dof_pos_scale self1) d;
                             dof_vel_scaled = map (\<lambda>x. x * dof_vel_scale self1) dof_vel;
                             dof_pos_scaled = dof_pos_scaled @ [0, 0];
                             dof_vel_scaled = dof_vel_scaled @ [0, 0];
                             dof_pos_scaled = mujoco_to_isaac u dof_pos_scaled;
                             dof_vel_scaled = mujoco_to_isaac u dof_vel_scaled;
                             projected_gravity = quat_rotate_inverse u q [0, 0, - 1]
                         in (Inr (Some (projected_gravity @ cmds @ dof_pos_scaled
                                          @ dof_vel_scaled @ prev_action self1)),
                             self1, []))))))"

section \<open>The control loop: RLWalk.run\<close>

text \<open>
  What the loop leaves outside the object: the lines printed, the dictionaries passed to
  \<open>hwi.set_position_all\<close>, the durations passed to \<open>time.sleep\<close>, and the contents of
  robot_computed_obs.pkl once written (the numbers printed after the word
  \<open>commands\<close> are not part of the log).
\<close>

record world =
  stdout :: "string list"
  sent_positions :: "(string \<times> real) list list"
  sleeps :: "real list"
  pickled :: "real list list option"

text \<open>The object together with the local variables of \<open>run\<close>.\<close>

record 'f run_state =
  obj :: "'f rl_walk"
  loop_i :: nat
  robot_computed_obs :: "real list list"
  cur_commands :: "real list"
  out :: world

text \<open>
  One pass of \<open>while True\<close> falls through to the next pass, leaves the loop through
  \<open>break\<close>, or raises; the state is the one reached at that point.
\<close>

datatype 'f step =
    is_Continue: Continue (step_state: "'f run_state")
  | is_Break: Break (step_state: "'f run_state")
  | is_Raise: Raise (step_exn: exn) (step_state: "'f run_state")

text \<open>
  The sampler thread's \<open>put\<close> between two reads of the scheduler: it goes through when
  the queue has room and otherwise stays suspended, leaving the queue as it is.
\<close>

definition sampler_activity :: "iter_env \<Rightarrow> 'f rl_walk \<Rightarrow> 'f rl_walk" where
  "sampler_activity e self =
     (case sampler_offer e of
        None \<Rightarrow> self
      | Some v \<Rightarrow>
         (case queue_put (imu_queue self) v of
            None \<Rightarrow> self
          | Some q \<Rightarrow> self\<lparr>imu_queue := q\<rparr>))"

text \<open>Lines 165 to 174: the adaptive (RMA) path or the direct call of the policy.\<close>

definition infer_action ::
  "iter_env \<Rightarrow> 'f rl_walk \<Rightarrow> real list \<Rightarrow> (exn + real list) \<times> 'f rl_walk" where
  "infer_action e self obs =
     (if rma self then
        (let self1 = self\<lparr>obs_history := obs_history self @ [obs]\<rparr>;
             self2 = self1\<lparr>obs_history :=
                        py_last_slice (obs_history_size self1) (obs_history self1)\<rparr>
         in case np_flatten (obs_history self2) of
              Inl x \<Rightarrow> (Inl x, self2)
            | Inr flat \<Rightarrow>
               (case adaptation_infer e flat of
                  Inl x \<Rightarrow> (Inl x, self2)
                | Inr latent \<Rightarrow> (policy_infer e (obs @ latent), self2)))
      else (policy_infer e obs, self))"

text \<open>Line 210: \<open>time.sleep(max(1 / self.control_freq - took, 0))\<close>.\<close>

definition pace :: "iter_env \<Rightarrow> 'f run_state \<Rightarrow> 'f step" where
  "pace e s =
     (if control_freq (obj s) = 0 then Raise (Exception ''ZeroDivisionError'') s
      else
        (let d = max (1 / control_freq (obj s) - took e) 0;
             s1 = s\<lparr>out := (out s)\<lparr>sleeps := sleeps (out s) @ [d]\<rparr>\<rparr>
         in if sleep_interrupted e then Raise KeyboardInterrupt s1 else Continue s1))"

text \<open>Lines 188 to 210: poll the command client when enabled, count the pass, pace.\<close>

definition poll_and_pace :: "iter_env \<Rightarrow> 'f run_state \<Rightarrow> 'f step" where
  "poll_and_pace e s =
     (if commands (obj s) then
        (case get_command e of
           Inl x \<Rightarrow> Raise x s
         | Inr c \<Rightarrow>
            (case np_broadcast (*) c
                    [linearVelocityScale (obj s), linearVelocityScale (obj s),
                     angularVelocityScale (obj s)] of
               Inl x \<Rightarrow> Raise x s
             | Inr c1 \<Rightarrow>
                pace e (s\<lparr>cur_commands := c1,
                          out := (out s)\<lparr>stdout := stdout (out s) @ [''commands'']\<rparr>,
                          loop_i := loop_i s + 1\<rparr>)))
      else pace e (s\<lparr>loop_i := loop_i s + 1\<rparr>))"

text \<open>Lines 176 to 186: keep the action, scale and offset it, filter it, send it.\<close>

definition after_inference :: "'f rl_utils \<Rightarrow> iter_env \<Rightarrow> 'f run_state \<Rightarrow> real list \<Rightarrow> 'f step" where
  "after_inference u e s action =
     (let s1 = s\<lparr>obj := (obj s)\<lparr>prev_action := action\<rparr>\<rparr>
      in case np_broadcast (+) (map (\<lambda>a. a * action_scale (obj s1)) action)
                (isaac_init_pos (obj s1)) of
           Inl x \<Rightarrow> Raise x s1
         | Inr a \<Rightarrow>
            (let flt = lpf_push u (action_filter (obj s1)) a;
                 s2 = s1\<lparr>obj := (obj s1)\<lparr>action_filter := flt\<rparr>\<rparr>;
                 filtered = lpf_get_filtered_action u flt;
                 robot_action = isaac_to_mujoco u filtered;
                 action_dict = make_action_dict u robot_action (mujoco_joints_order u);
                 s3 = s2\<lparr>out := (out s2)\<lparr>sent_positions :=
                                            sent_positions (out s2) @ [action_dict]\<rparr>\<rparr>
             in case set_position_all e action_dict of
                  Some x \<Rightarrow> Raise x s3
                | None \<Rightarrow> poll_and_pace e s3))"

text \<open>Lines 159 to 210: one pass of the loop body.\<close>

definition iteration :: "'f rl_utils \<Rightarrow> iter_env \<Rightarrow> 'f run_state \<Rightarrow> 'f step" where
  "iteration u e s =
     (let (r, self1, printed) = get_obs u e (sampler_activity e (obj s)) (cur_commands s);
          s1 = s\<lparr>obj := self1, out := (out s)\<lparr>stdout := stdout (out s) @ printed\<rparr>\<rparr>
      in case r of
           Inl x \<Rightarrow> Raise x s1
         | Inr None \<Rightarrow> Break s1
         | Inr (Some obs) \<Rightarrow>
            (let s2 = s1\<lparr>robot_computed_obs := robot_computed_obs s1 @ [obs]\<rparr>;
                 (ra, self2) = infer_action e (obj s2) obs;
                 s3 = s2\<lparr>obj := self2\<rparr>
             in case ra of
                  Inl x \<Rightarrow> Raise x s3
                | Inr action \<Rightarrow> after_inference u e s3 action))"

text \<open>
  \<open>while True\<close> over the answers of the outside world, one per pass. When the answers
  run out the loop is still running: it has no exit of its own.
\<close>

fun loop :: "'f rl_utils \<Rightarrow> iter_env list \<Rightarrow> 'f run_state \<Rightarrow> 'f step" where
  "loop u [] s = Continue s"
| "loop u (e # es) s =
     (case iteration u e s of
        Continue s1 \<Rightarrow> loop u es s1
      | Break s1 \<Rightarrow> Break s1
      | Raise x s1 \<Rightarrow> Raise x s1)"

text \<open>Lines 214 and 215: write the trace, then \<open>time.sleep(1)\<close>.\<close>

definition dump :: "'f run_state \<Rightarrow> 'f run_state" where
  "dump s = s\<lparr>out := (out s)\<lparr>pickled := Some (robot_computed_obs s),
                               sleeps := sleeps (out s) @ [1]\<rparr>\<rparr>"

definition run_init :: "'f rl_walk \<Rightarrow> world \<Rightarrow> 'f run_state" where
  "run_init self w =
     \<lparr>obj = self, loop_i = 0, robot_computed_obs = [], cur_commands = [0, 0, 0],
      out = w\<lparr>stdout := stdout w @ [''Starting'']\<rparr>\<rparr>"

datatype 'f run_result =
    StillRunning (result_state: "'f run_state")
  | is_RunReturned: RunReturned (result_state: "'f run_state")
  | is_RunRaised: RunRaised (result_exn: exn) (result_state: "'f run_state")

text \<open>
  \<open>RLWalk.run\<close>: \<open>try: ... except KeyboardInterrupt: pass\<close>, then the dump. Any other
  exception leaves \<open>run\<close> at the point where it was raised.
\<close>

definition run :: "'f rl_utils \<Rightarrow> iter_env list \<Rightarrow> 'f rl_walk \<Rightarrow> world \<Rightarrow> 'f run_result" where
  "run u es self w =
     (case loop u es (run_init self w) of
        Continue s \<Rightarrow> StillRunning s
      | Break s \<Rightarrow> RunReturned (dump s)
      | Raise KeyboardInterrupt s \<Rightarrow> RunReturned (dump s)
      | Raise (Exception m) s \<Rightarrow> RunRaised (Exception m) s)"

text \<open>
  The observations that \<open>get_obs\<close> returns to \<open>run\<close>, pass after pass and in that
  order, up to the pass that leaves the loop. This list is read off the calls of
  \<open>get_obs\<close> alone, not off the variable \<open>robot_computed_obs\<close>.
\<close>

fun pass_observations :: "'f rl_utils \<Rightarrow> iter_env list \<Rightarrow> 'f run_state \<Rightarrow> real list list" where
  "pass_observations u [] s = []"
| "pass_observations u (e # es) s =
     (case fst (get_obs u e (sampler_activity e (obj s)) (cur_commands s)) of
        Inl x \<Rightarrow> []
      | Inr None \<Rightarrow> []
      | Inr (Some obs) \<Rightarrow>
          obs # (case iteration u e s of
                   Continue s1 \<Rightarrow> pass_observations u es s1
                 | Break s1 \<Rightarrow> []
                 | Raise x s1 \<Rightarrow> []))"

section \<open>The sampler thread: RLWalk.imu_worker\<close>

text \<open>
  scipy's rotation conversions are parameters. \<open>as_euler\<close> of one rotation gives three
  angles; it raises on a quaternion it cannot normalise.
\<close>

record scipy =
  from_quat_as_euler :: "real list \<Rightarrow> exn + real \<times> real \<times> real"
  from_euler_as_quat :: "real \<times> real \<times> real \<Rightarrow> real list"

definition deg2rad :: "real \<Rightarrow> real" where
  "deg2rad d = d * pi / 180"

text \<open>
  The thread is at the \<open>try\<close> block, inside \<open>self.imu_queue.put\<close> with the value to
  publish, or at \<open>time.sleep\<close>.
\<close>

datatype worker_pc = AtRead | AtPut "real list" | AtSleep

record 'f sampler =
  pc :: worker_pc
  shared :: "'f rl_walk"
  worker_stdout :: "string list"
  worker_sleeps :: "real list"

datatype 'f worker_step = Stepped "'f sampler" | Blocked | Died exn

text \<open>Lines 86 to 88, the body of \<open>try\<close>: the sensor's answer, then the conversion.\<close>

definition read_orientation :: "scipy \<Rightarrow> exn + real list \<Rightarrow> exn + real \<times> real \<times> real" where
  "read_orientation sp reading =
     (case reading of Inl x \<Rightarrow> Inl x | Inr raw_orientation \<Rightarrow> from_quat_as_euler sp raw_orientation)"

text \<open>
  One step of \<open>imu_worker\<close>; \<open>reading\<close> is what the sensor answers if it is asked now.
  \<open>except Exception\<close> does not catch \<open>KeyboardInterrupt\<close>. The sleep is outside the
  \<open>try\<close>: a zero frequency raises ZeroDivisionError and a negative one makes
  \<open>time.sleep\<close> raise ValueError, and either ends the thread.
\<close>

definition imu_worker_step :: "scipy \<Rightarrow> exn + real list \<Rightarrow> 'f sampler \<Rightarrow> 'f worker_step" where
  "imu_worker_step sp reading w =
     (case pc w of
        AtRead \<Rightarrow>
          (case read_orientation sp reading of
             Inl (Exception m) \<Rightarrow> Stepped (w\<lparr>worker_stdout := worker_stdout w @ [m]\<rparr>)
           | Inl KeyboardInterrupt \<Rightarrow> Died KeyboardInterrupt
           | Inr (e0, e1, e2) \<Rightarrow>
               Stepped (w\<lparr>pc := AtPut (from_euler_as_quat sp
                                          (e1, e2 + deg2rad (pitch_bias (shared w)), e0))\<rparr>))
      | AtPut v \<Rightarrow>
          (case queue_put (imu_queue (shared w)) v of
             None \<Rightarrow> Blocked
           | Some q \<Rightarrow> Stepped (w\<lparr>shared := (shared w)\<lparr>imu_queue := q\<rparr>, pc := AtSleep\<rparr>))
      | AtSleep \<Rightarrow>
          (if control_freq (shared w) * 2 = 0 then Died (Exception ''ZeroDivisionError'')
           else if 1 / (control_freq (shared w) * 2) < 0
           then Died (Exception ''ValueError: sleep length must be non-negative'')
           else Stepped (w\<lparr>worker_sleeps :=
                              worker_sleeps w @ [1 / (control_freq (shared w) * 2)],
                           pc := AtRead\<rparr>)))"

text \<open>The thread run against a sequence of sensor answers, until it is suspended or dies.\<close>

fun imu_worker :: "scipy \<Rightarrow> (exn + real list) list \<Rightarrow> 'f sampler \<Rightarrow> 'f worker_step" where
  "imu_worker sp [] w = Stepped w"
| "imu_worker sp (r # rs) w =
     (case imu_worker_step sp r w of
        Stepped w1 \<Rightarrow> imu_worker sp rs w1
      | Blocked \<Rightarrow> Blocked
      | Died x \<Rightarrow> Died x)"

section \<open>Stubs for running the model\<close>

text \<open>
  Deterministic stand-ins for the collaborators: joint reordering by reversal, a rotation
  that leaves the vector alone, a filter that passes the action through, a servo bus at
  the rest pose, engines with constant outputs.
\<close>

definition stub_utils :: "real list rl_utils" where
  "stub_utils =
     \<lparr>mujoco_to_isaac = rev, isaac_to_mujoco = rev,
      quat_rotate_inverse = (\<lambda>q v. v),
      make_action_dict = (\<lambda>a names. zip names a),
      mujoco_joints_order = [''right_hip_yaw'', ''right_hip_roll''],
      LowPassActionFilter = (\<lambda>f c. []),
      lpf_push = (\<lambda>st a. a),
      lpf_get_filtered_action = (\<lambda>st. st)\<rparr>"

definition stub_env :: iter_env where
  "stub_env =
     \<lparr>sampler_offer = None,
      get_present_positions = Inr (replicate 13 0),
      get_present_velocities = Inr (replicate 13 0),
      adaptation_infer = (\<lambda>h. Inr [0]),
      policy_infer = (\<lambda>x. Inr (replicate 15 1)),
      set_position_all = (\<lambda>d. None),
      get_command = Inr [0, 0, 0],
      took = 1 / 100,
      sleep_interrupted = False\<rparr>"

definition stub_config :: config where
  "stub_config =
     \<lparr>cfg_control_freq = 60, cfg_debug_no_imu = False, cfg_action_scale = 1 / 4,
      cfg_cutoff_frequency = 100, cfg_commands = False, cfg_pitch_bias = 0, cfg_rma = True\<rparr>"

definition empty_world :: world where
  "empty_world = \<lparr>stdout = [], sent_positions = [], sleeps = [], pickled = None\<rparr>"

definition stub_self :: "real list rl_walk" where
  "stub_self = init stub_utils stub_config (replicate 13 0)"

definition stub_scipy :: scipy where
  "stub_scipy =
     \<lparr>from_quat_as_euler =
        (\<lambda>q. case q of [x, y, z, w] \<Rightarrow> Inr (x, y, z)
              | _ \<Rightarrow> Inl (Exception ''ValueError: expected 4 components'')),
      from_euler_as_quat = (\<lambda>(x, y, z). [x, y, z, 1])\<rparr>"

definition stub_sampler :: "real list sampler" where
  "stub_sampler = \<lparr>pc = AtRead, shared = stub_self, worker_stdout = [], worker_sleeps = []\<rparr>"

definition stub_obs :: "real list" where
  "stub_obs = [0, 0, - 1] @ [0, 0, 0] @ replicate 45 0"

definition stub_obs2 :: "real list" where
  "stub_obs2 = [0, 0, - 1] @ [0, 0, 0] @ replicate 30 0 @ replicate 15 1"

definition failing_engine_env :: iter_env where
  "failing_engine_env =
     stub_env\<lparr>policy_infer := (\<lambda>x. Inl (Exception ''onnxruntime: inference failed''))\<rparr>"

definition interrupted_env :: iter_env where
  "interrupted_env = stub_env\<lparr>sleep_interrupted := True\<rparr>"

definition failed_reads :: "(exn + real list) list" where
  "failed_reads =
     [Inl (Exception ''UART read error''), Inr [0, 0, 0], Inl (Exception ''UART read error'')]"

definition reading_a :: "exn + real list" where
  "reading_a = Inr [1, 2, 3, 4]"

definition reading_b :: "exn + real list" where
  "reading_b = Inr [5, 6, 7, 8]"

section \<open>Frame and shape lemmas\<close>

lemma py_last_slice_length:
  "length xs = n \<Longrightarrow> 0 < n \<Longrightarrow> length (py_last_slice n (xs @ [x])) = n"
  by (simp add: py_last_slice_def)

lemma py_last_slice_twice:
  assumes "0 < n"
  shows "py_last_slice n (py_last_slice n xs @ ys) = py_last_slice n (xs @ ys)"
proof -
  have "length xs + length ys - (length xs - n + n) + (length xs - n)
          = length xs + length ys - n"
    by arith
  then show ?thesis
    using assms by (simp add: py_last_slice_def)
qed

lemma pace_frame:
  "obj (step_state (pace e s)) = obj s"
  "robot_computed_obs (step_state (pace e s)) = robot_computed_obs s"
  "cur_commands (step_state (pace e s)) = cur_commands s"
  "pickled (out (step_state (pace e s))) = pickled (out s)"
  by (simp_all add: pace_def Let_def)

lemma pace_Continue_D:
  assumes "pace e s = Continue s1"
  shows "control_freq (obj s) \<noteq> 0 \<and> \<not> sleep_interrupted e
       \<and> s1 = s\<lparr>out := (out s)\<lparr>sleeps := sleeps (out s)
                     @ [max (1 / control_freq (obj s) - took e) 0]\<rparr>\<rparr>"
  using assms by (simp add: pace_def Let_def split: if_splits)

lemma poll_and_pace_frame:
  "obj (step_state (poll_and_pace e s)) = obj s"
  "robot_computed_obs (step_state (poll_and_pace e s)) = robot_computed_obs s"
  "pickled (out (step_state (poll_and_pace e s))) = pickled (out s)"
  by (simp_all add: poll_and_pace_def pace_frame split: sum.splits)

lemma poll_and_pace_Continue_D:
  assumes "poll_and_pace e s = Continue s1"
  shows "control_freq (obj s) \<noteq> 0 \<and> \<not> sleep_interrupted e
       \<and> obj s1 = obj s \<and> robot_computed_obs s1 = robot_computed_obs s
       \<and> sent_positions (out s1) = sent_positions (out s)
       \<and> sleeps (out s1) = sleeps (out s) @ [max (1 / control_freq (obj s) - took e) 0]"
proof (cases "commands (obj s)")
  case False
  with assms have "pace e (s\<lparr>loop_i := loop_i s + 1\<rparr>) = Continue s1"
    by (simp add: poll_and_pace_def)
  from pace_Continue_D [OF this] show ?thesis by simp
next
  case True
  with assms obtain c1 where
    "pace e (s\<lparr>cur_commands := c1,
               out := (out s)\<lparr>stdout := stdout (out s) @ [''commands'']\<rparr>,
               loop_i := loop_i s + 1\<rparr>) = Continue s1"
    by (auto simp: poll_and_pace_def split: sum.splits)
  from pace_Continue_D [OF this] show ?thesis by simp
qed

lemma after_inference_frame:
  "obs_history (obj (step_state (after_inference u e s a))) = obs_history (obj s)"
  "obs_history_size (obj (step_state (after_inference u e s a))) = obs_history_size (obj s)"
  "rma (obj (step_state (after_inference u e s a))) = rma (obj s)"
  "last_imu_data (obj (step_state (after_inference u e s a))) = last_imu_data (obj s)"
  "control_freq (obj (step_state (after_inference u e s a))) = control_freq (obj s)"
  "robot_computed_obs (step_state (after_inference u e s a)) = robot_computed_obs s"
  "pickled (out (step_state (after_inference u e s a))) = pickled (out s)"
  by (simp_all add: after_inference_def Let_def poll_and_pace_frame
        split: sum.splits option.splits)

lemma after_inference_Continue_D:
  assumes "after_inference u e s action = Continue s1"
  shows "\<exists>scaled.
           np_broadcast (+) (map (\<lambda>a. a * action_scale (obj s)) action)
             (isaac_init_pos (obj s)) = Inr scaled
         \<and> control_freq (obj s) \<noteq> 0 \<and> \<not> sleep_interrupted e
         \<and> obj s1 = (obj s)\<lparr>prev_action := action,
                             action_filter := lpf_push u (action_filter (obj s)) scaled\<rparr>
         \<and> robot_computed_obs s1 = robot_computed_obs s
         \<and> sent_positions (out s1) = sent_positions (out s)
              @ [make_action_dict u
                   (isaac_to_mujoco u
                      (lpf_get_filtered_action u (lpf_push u (action_filter (obj s)) scaled)))
                   (mujoco_joints_order u)]
         \<and> sleeps (out s1) = sleeps (out s) @ [max (1 / control_freq (obj s) - took e) 0]"
proof -
  let ?s1 = "s\<lparr>obj := (obj s)\<lparr>prev_action := action\<rparr>\<rparr>"
  from assms obtain scaled where
    sc: "np_broadcast (+) (map (\<lambda>a. a * action_scale (obj s)) action)
           (isaac_init_pos (obj s)) = Inr scaled"
    by (auto simp: after_inference_def Let_def split: sum.splits)
  let ?flt = "lpf_push u (action_filter (obj s)) scaled"
  let ?dict = "make_action_dict u (isaac_to_mujoco u (lpf_get_filtered_action u ?flt))
                 (mujoco_joints_order u)"
  let ?s3 = "s\<lparr>obj := (obj s)\<lparr>prev_action := action, action_filter := ?flt\<rparr>,
               out := (out s)\<lparr>sent_positions := sent_positions (out s) @ [?dict]\<rparr>\<rparr>"
  from assms sc have "poll_and_pace e ?s3 = Continue s1"
    by (simp add: after_inference_def Let_def split: option.splits)
  from poll_and_pace_Continue_D [OF this] sc show ?thesis
    by simp
qed

lemma get_imu_data_frame:
  "obs_history (snd (get_imu_data self)) = obs_history self"
  "obs_history_size (snd (get_imu_data self)) = obs_history_size self"
  "rma (snd (get_imu_data self)) = rma self"
  "prev_action (snd (get_imu_data self)) = prev_action self"
  "control_freq (snd (get_imu_data self)) = control_freq self"
  "mujoco_init_pos (snd (get_imu_data self)) = mujoco_init_pos self"
  "dof_pos_scale (snd (get_imu_data self)) = dof_pos_scale self"
  "dof_vel_scale (snd (get_imu_data self)) = dof_vel_scale self"
  "action_scale (snd (get_imu_data self)) = action_scale self"
  "isaac_init_pos (snd (get_imu_data self)) = isaac_init_pos self"
  "action_filter (snd (get_imu_data self)) = action_filter self"
  "debug_no_imu (snd (get_imu_data self)) = debug_no_imu self"
  by (simp_all add: get_imu_data_def Let_def split: sum.splits exn.splits prod.splits)

lemma get_imu_data_not_None:
  "last_imu_data self \<noteq> None \<Longrightarrow> fst (get_imu_data self) \<noteq> None"
  "last_imu_data self \<noteq> None \<Longrightarrow> last_imu_data (snd (get_imu_data self)) \<noteq> None"
  by (simp_all add: get_imu_data_def Let_def split: sum.splits exn.splits prod.splits)

lemma get_obs_self:
  "fst (snd (get_obs u e self c)) = (if debug_no_imu self then self else snd (get_imu_data self))"
  by (simp add: get_obs_def Let_def case_prod_beta split: sum.splits option.splits)

lemma get_obs_frame:
  "obs_history (fst (snd (get_obs u e self c))) = obs_history self"
  "obs_history_size (fst (snd (get_obs u e self c))) = obs_history_size self"
  "rma (fst (snd (get_obs u e self c))) = rma self"
  "prev_action (fst (snd (get_obs u e self c))) = prev_action self"
  "control_freq (fst (snd (get_obs u e self c))) = control_freq self"
  "action_scale (fst (snd (get_obs u e self c))) = action_scale self"
  "isaac_init_pos (fst (snd (get_obs u e self c))) = isaac_init_pos self"
  "action_filter (fst (snd (get_obs u e self c))) = action_filter self"
  "debug_no_imu (fst (snd (get_obs u e self c))) = debug_no_imu self"
  by (simp_all add: get_obs_self get_imu_data_frame)

lemma get_obs_ends_with_prev_action:
  assumes "fst (get_obs u e self c) = Inr (Some obs)"
  shows "\<exists>front. obs = front @ prev_action self"
  using assms
  by (auto simp: get_obs_def Let_def case_prod_beta get_imu_data_frame
        split: sum.splits option.splits if_splits)

lemma get_obs_not_None:
  assumes "last_imu_data self \<noteq> None"
  shows "fst (get_obs u e self c) \<noteq> Inr None"
  using assms get_imu_data_not_None(1) [of self]
  by (auto simp: get_obs_def Let_def case_prod_beta split: sum.splits option.splits)

lemma sampler_activity_frame:
  "obs_history (sampler_activity e self) = obs_history self"
  "obs_history_size (sampler_activity e self) = obs_history_size self"
  "rma (sampler_activity e self) = rma self"
  "prev_action (sampler_activity e self) = prev_action self"
  "last_imu_data (sampler_activity e self) = last_imu_data self"
  "control_freq (sampler_activity e self) = control_freq self"
  "debug_no_imu (sampler_activity e self) = debug_no_imu self"
  "action_scale (sampler_activity e self) = action_scale self"
  "isaac_init_pos (sampler_activity e self) = isaac_init_pos self"
  "action_filter (sampler_activity e self) = action_filter self"
  by (simp_all add: sampler_activity_def split: option.splits)

lemma infer_action_frame:
  "obs_history_size (snd (infer_action e self obs)) = obs_history_size self"
  "rma (snd (infer_action e self obs)) = rma self"
  "prev_action (snd (infer_action e self obs)) = prev_action self"
  "last_imu_data (snd (infer_action e self obs)) = last_imu_data self"
  "control_freq (snd (infer_action e self obs)) = control_freq self"
  "action_scale (snd (infer_action e self obs)) = action_scale self"
  "isaac_init_pos (snd (infer_action e self obs)) = isaac_init_pos self"
  "action_filter (snd (infer_action e self obs)) = action_filter self"
  by (simp_all add: infer_action_def Let_def split: sum.splits)

lemma infer_action_history:
  "obs_history (snd (infer_action e self obs)) =
     (if rma self then py_last_slice (obs_history_size self) (obs_history self @ [obs])
      else obs_history self)"
  by (simp add: infer_action_def Let_def split: sum.splits)

lemma iteration_Continue_D:
  assumes "iteration u e s = Continue s1"
  shows "\<exists>obs action scaled.
           fst (get_obs u e (sampler_activity e (obj s)) (cur_commands s)) = Inr (Some obs)
         \<and> fst (infer_action e
                 (fst (snd (get_obs u e (sampler_activity e (obj s)) (cur_commands s)))) obs)
             = Inr action
         \<and> np_broadcast (+) (map (\<lambda>a. a * action_scale (obj s)) action)
             (isaac_init_pos (obj s)) = Inr scaled
         \<and> control_freq (obj s) \<noteq> 0 \<and> \<not> sleep_interrupted e
         \<and> prev_action (obj s1) = action
         \<and> action_filter (obj s1) = lpf_push u (action_filter (obj s)) scaled
         \<and> obs_history (obj s1) =
             (if rma (obj s)
              then py_last_slice (obs_history_size (obj s)) (obs_history (obj s) @ [obs])
              else obs_history (obj s))
         \<and> robot_computed_obs s1 = robot_computed_obs s @ [obs]
         \<and> sent_positions (out s1) = sent_positions (out s)
              @ [make_action_dict u
                   (isaac_to_mujoco u
                      (lpf_get_filtered_action u (lpf_push u (action_filter (obj s)) scaled)))
                   (mujoco_joints_order u)]
         \<and> sleeps (out s1) = sleeps (out s) @ [max (1 / control_freq (obj s) - took e) 0]"
proof -
  let ?g = "get_obs u e (sampler_activity e (obj s)) (cur_commands s)"
  let ?self1 = "fst (snd ?g)"
  let ?s1 = "s\<lparr>obj := ?self1, out := (out s)\<lparr>stdout := stdout (out s) @ snd (snd ?g)\<rparr>\<rparr>"
  from assms obtain obs where obs: "fst ?g = Inr (Some obs)"
    by (auto simp: iteration_def Let_def case_prod_beta split: sum.splits option.splits)
  let ?s2 = "?s1\<lparr>robot_computed_obs := robot_computed_obs s @ [obs]\<rparr>"
  let ?i = "infer_action e ?self1 obs"
  from assms obs obtain action where act: "fst ?i = Inr action"
    by (auto simp: iteration_def Let_def case_prod_beta split: sum.splits)
  let ?s3 = "?s2\<lparr>obj := snd ?i\<rparr>"
  from assms obs act have "after_inference u e ?s3 action = Continue s1"
    by (simp add: iteration_def Let_def case_prod_beta)
  from after_inference_Continue_D [OF this] obs act show ?thesis
    by (auto simp: infer_action_frame get_obs_frame infer_action_history
          sampler_activity_frame)
qed

lemma pace_not_Break: "\<not> is_Break (pace e s)"
  by (simp add: pace_def Let_def)

lemma poll_and_pace_not_Break: "\<not> is_Break (poll_and_pace e s)"
  by (simp add: poll_and_pace_def pace_not_Break split: sum.splits)

lemma after_inference_not_Break: "\<not> is_Break (after_inference u e s a)"
  by (simp add: after_inference_def Let_def poll_and_pace_not_Break
        split: sum.splits option.splits)

lemma iteration_frame:
  "pickled (out (step_state (iteration u e s))) = pickled (out s)"
  "obs_history_size (obj (step_state (iteration u e s))) = obs_history_size (obj s)"
  "rma (obj (step_state (iteration u e s))) = rma (obj s)"
  "control_freq (obj (step_state (iteration u e s))) = control_freq (obj s)"
  by (simp_all add: iteration_def Let_def case_prod_beta after_inference_frame
        infer_action_frame get_obs_frame sampler_activity_frame
        split: sum.splits option.splits)

lemma get_obs_last_imu_data:
  "last_imu_data self \<noteq> None \<Longrightarrow> last_imu_data (fst (snd (get_obs u e self c))) \<noteq> None"
  using get_imu_data_not_None(2) [of self] by (simp add: get_obs_self)

lemma iteration_last_imu_data:
  "last_imu_data (obj s) \<noteq> None
     \<Longrightarrow> last_imu_data (obj (step_state (iteration u e s))) \<noteq> None"
  using get_obs_last_imu_data [of "sampler_activity e (obj s)" u e "cur_commands s"]
  by (simp add: iteration_def Let_def case_prod_beta after_inference_frame
        infer_action_frame sampler_activity_frame
        split: sum.splits option.splits)

lemma iteration_not_Break:
  assumes "last_imu_data (obj s) \<noteq> None"
  shows "\<not> is_Break (iteration u e s)"
proof -
  have "fst (get_obs u e (sampler_activity e (obj s)) (cur_commands s)) \<noteq> Inr None"
    using assms by (simp add: get_obs_not_None sampler_activity_frame)
  then show ?thesis
    by (simp add: iteration_def Let_def case_prod_beta after_inference_not_Break
          split: sum.splits option.splits)
qed

lemma iteration_history_length:
  assumes "length (obs_history (obj s)) = n" "obs_history_size (obj s) = n" "0 < n"
  shows "length (obs_history (obj (step_state (iteration u e s)))) = n"
  using assms
  by (simp add: iteration_def Let_def case_prod_beta after_inference_frame
        infer_action_history get_obs_frame sampler_activity_frame py_last_slice_length
        split: sum.splits option.splits)

lemma iteration_obs_cases:
  "robot_computed_obs (step_state (iteration u e s)) =
     (case fst (get_obs u e (sampler_activity e (obj s)) (cur_commands s)) of
        Inr (Some obs) \<Rightarrow> robot_computed_obs s @ [obs]
      | _ \<Rightarrow> robot_computed_obs s)"
  by (simp add: iteration_def Let_def case_prod_beta after_inference_frame
        split: sum.splits option.splits)

lemma iteration_stops_without_obs:
  "is_Continue (iteration u e s)
     \<Longrightarrow> \<exists>obs. fst (get_obs u e (sampler_activity e (obj s)) (cur_commands s)) = Inr (Some obs)"
  by (auto simp: iteration_def Let_def case_prod_beta split: sum.splits option.splits)

lemma loop_frame:
  "pickled (out (step_state (loop u es s))) = pickled (out s)"
  by (induction es arbitrary: s)
     (auto split: step.splits dest: arg_cong [where f = "\<lambda>r. pickled (out (step_state r))"]
        simp: iteration_frame)

lemma loop_history_length:
  assumes "length (obs_history (obj s)) = n" "obs_history_size (obj s) = n" "0 < n"
  shows "length (obs_history (obj (step_state (loop u es s)))) = n"
  using assms
proof (induction es arbitrary: s)
  case Nil
  then show ?case by simp
next
  case (Cons e es)
  show ?case
  proof (cases "iteration u e s")
    case (Continue s1)
    have "length (obs_history (obj s1)) = n" "obs_history_size (obj s1) = n"
      using iteration_history_length [OF Cons.prems, of u e]
            iteration_frame(2) [of u e s] Cons.prems Continue by simp_all
    from Cons.IH [OF this Cons.prems(3)] Continue show ?thesis by simp
  next
    case (Break s1)
    then show ?thesis
      using iteration_history_length [OF Cons.prems, of u e] by simp
  next
    case (Raise x s1)
    then show ?thesis
      using iteration_history_length [OF Cons.prems, of u e] by simp
  qed
qed

section \<open>The claims\<close>

text \<open>
  C10. In RMA mode the observation history holds exactly 15 entries after construction
  and after every pass of the loop, however the pass ends: the append followed by the
  truncation to the last 15 entries keeps the length of the zero-filled initial window.
\<close>
theorem obs_history_length_invariant:
  assumes "cfg_rma c"
  shows "rma (init u c hwi_init_pos)
       \<and> length (obs_history (init u c hwi_init_pos)) = 15
       \<and> length (obs_history (obj (step_state
            (loop u es (run_init (init u c hwi_init_pos) w))))) = 15"
proof -
  have "length (obs_history (obj (run_init (init u c hwi_init_pos) w))) = 15"
       "obs_history_size (obj (run_init (init u c hwi_init_pos) w)) = 15"
    by (simp_all add: run_init_def init_def np_zeros2_def)
  from loop_history_length [OF this, of u es] assms show ?thesis
    by (simp add: init_def np_zeros2_def)
qed

theorem obs_history_length_invariant_witness:
  "cfg_rma stub_config
   \<and> length (obs_history (obj (step_state
        (loop stub_utils [stub_env, stub_env, stub_env] (run_init stub_self empty_world))))) = 15"
  using obs_history_length_invariant [of stub_config stub_utils "replicate 13 0"
          "[stub_env, stub_env, stub_env]" empty_world]
  by (simp add: stub_config_def stub_self_def)

lemma iteration_obs_prefix:
  "\<exists>ys. robot_computed_obs (step_state (iteration u e s)) = robot_computed_obs s @ ys"
  by (simp add: iteration_obs_cases split: sum.splits option.splits)

lemma loop_obs_prefix:
  "\<exists>ys. robot_computed_obs (step_state (loop u es s)) = robot_computed_obs s @ ys"
proof (induction es arbitrary: s)
  case Nil
  then show ?case by simp
next
  case (Cons e es)
  obtain ys where ys: "robot_computed_obs (step_state (iteration u e s)) = robot_computed_obs s @ ys"
    using iteration_obs_prefix by blast
  show ?case
  proof (cases "iteration u e s")
    case (Continue s1)
    from Cons.IH [of s1] obtain zs where
      "robot_computed_obs (step_state (loop u es s1)) = robot_computed_obs s1 @ zs" by blast
    with ys Continue show ?thesis by simp
  next
    case (Break s1)
    with ys show ?thesis by simp
  next
    case (Raise x s1)
    with ys show ?thesis by simp
  qed
qed

lemma first_pass_obs:
  assumes "robot_computed_obs s = []"
      and "robot_computed_obs (step_state (loop u (e # es) s)) = o1 # rest"
  shows "fst (get_obs u e (sampler_activity e (obj s)) (cur_commands s)) = Inr (Some o1)"
proof (cases "iteration u e s")
  case (Continue s1)
  then obtain obs where
    obs: "fst (get_obs u e (sampler_activity e (obj s)) (cur_commands s)) = Inr (Some obs)"
    using iteration_stops_without_obs [of u e s] by auto
  with Continue assms(1) have "robot_computed_obs s1 = [obs]"
    using iteration_obs_cases [of u e s] by simp
  moreover obtain zs where
    "robot_computed_obs (step_state (loop u es s1)) = robot_computed_obs s1 @ zs"
    using loop_obs_prefix by blast
  ultimately show ?thesis using assms(2) Continue obs by simp
next
  case (Break s1)
  with assms show ?thesis
    using iteration_obs_cases [of u e s] by (simp split: sum.splits option.splits)
next
  case (Raise x s1)
  with assms show ?thesis
    using iteration_obs_cases [of u e s] by (simp split: sum.splits option.splits)
qed

text \<open>
  C9. The previous-action buffer is a zero vector of length 15 at construction, so the
  last 15 entries of the first observation recorded in a session are all zero.
\<close>
theorem first_observation_prev_action_zero:
  assumes "robot_computed_obs (step_state
             (loop u es (run_init (init u c hwi_init_pos) w))) = o1 # rest"
  shows "prev_action (init u c hwi_init_pos) = replicate 15 0
       \<and> 15 \<le> length o1 \<and> drop (length o1 - 15) o1 = replicate 15 0"
proof -
  let ?s = "run_init (init u c hwi_init_pos) w"
  have e0: "robot_computed_obs ?s = []" by (simp add: run_init_def)
  from assms e0 obtain e es1 where es: "es = e # es1"
    by (cases es) auto
  from first_pass_obs [OF e0] assms es
  have "fst (get_obs u e (sampler_activity e (obj ?s)) (cur_commands ?s)) = Inr (Some o1)"
    by simp
  from get_obs_ends_with_prev_action [OF this] obtain front where
    "o1 = front @ prev_action (sampler_activity e (obj ?s))" by blast
  then have "o1 = front @ replicate 15 0"
    by (simp add: sampler_activity_frame run_init_def init_def np_zeros_def)
  then show ?thesis
    by (simp add: init_def np_zeros_def)
qed

lemma loop_single: "step_state (loop u [e] s) = step_state (iteration u e s)"
  by (cases "iteration u e s") simp_all

lemma stub_first_pass:
  "fst (get_obs stub_utils stub_env stub_self [0, 0, 0]) = Inr (Some stub_obs)"
  by (simp add: get_obs_def stub_self_def init_def stub_utils_def stub_env_def stub_config_def
        get_imu_data_def queue_get_nowait_def Queue_def np_broadcast_def np_zeros_def
        stub_obs_def eval_nat_numeral)

lemma stub_first_trace:
  "robot_computed_obs (step_state (loop stub_utils [stub_env] (run_init stub_self empty_world)))
     = [stub_obs]"
proof -
  have "sampler_activity stub_env stub_self = stub_self"
    by (simp add: sampler_activity_def stub_env_def)
  then show ?thesis
    using stub_first_pass unfolding loop_single
    by (simp add: iteration_obs_cases run_init_def)
qed

theorem first_observation_prev_action_zero_witness:
  "robot_computed_obs (step_state (loop stub_utils [stub_env] (run_init stub_self empty_world)))
     = [stub_obs]
   \<and> drop (length stub_obs - 15) stub_obs = replicate 15 0"
  using first_observation_prev_action_zero [of stub_utils "[stub_env]" stub_config
          "replicate 13 0" empty_world stub_obs "[]"] stub_first_trace
  by (simp add: stub_self_def)

text \<open>
  C4. The observation returned by get_obs is the concatenation, in this order, of the
  projected gravity (3 entries), the command vector (3), the scaled joint positions in
  policy order (15, two of them zero placeholders appended before the reordering), the
  scaled joint velocities in policy order (15, likewise) and the previous action (15):
  51 entries in all, whatever the command values. The servo bus reports 13 joints, the
  reordering keeps the length and the rotation returns a 3-vector.
\<close>

theorem get_obs_layout:
  assumes "(if debug_no_imu self then Some [1, 0, 0, 0] else fst (get_imu_data self)) = Some q"
      and "get_present_positions e = Inr dof_pos" and "length dof_pos = 13"
      and "get_present_velocities e = Inr dof_vel" and "length dof_vel = 13"
      and "13 \<le> length (mujoco_init_pos self)"
      and "\<forall>xs. length (mujoco_to_isaac u xs) = length xs"
      and "length (quat_rotate_inverse u q [0, 0, - 1]) = 3"
      and "length cmds = 3"
      and "length (prev_action self) = 15"
  shows "let projected_gravity = quat_rotate_inverse u q [0, 0, - 1];
             dof_pos_scaled = mujoco_to_isaac u
               (map (\<lambda>x. x * dof_pos_scale self)
                  (map2 (-) dof_pos (take 13 (mujoco_init_pos self))) @ [0, 0]);
             dof_vel_scaled = mujoco_to_isaac u
               (map (\<lambda>x. x * dof_vel_scale self) dof_vel @ [0, 0]);
             obs = projected_gravity @ cmds @ dof_pos_scaled @ dof_vel_scaled
                     @ prev_action self
         in fst (get_obs u e self cmds) = Inr (Some obs)
          \<and> length projected_gravity = 3 \<and> length cmds = 3
          \<and> length dof_pos_scaled = 15 \<and> length dof_vel_scaled = 15
          \<and> length (prev_action self) = 15 \<and> length obs = 51"
proof -
  have bc: "np_broadcast (-) dof_pos (take 13 (mujoco_init_pos self))
              = Inr (map2 (-) dof_pos (take 13 (mujoco_init_pos self)))"
    using assms(3,6) by (simp add: np_broadcast_def)
  show ?thesis
  proof (cases "debug_no_imu self")
    case True
    with assms bc show ?thesis
      by (simp add: get_obs_def Let_def)
  next
    case False
    with assms bc show ?thesis
      by (simp add: get_obs_def Let_def case_prod_beta get_imu_data_frame)
  qed
qed

theorem get_obs_layout_witness:
  "fst (get_obs stub_utils stub_env stub_self [0, 0, 0]) = Inr (Some stub_obs)
   \<and> length stub_obs = 51"
proof -
  have q: "(if debug_no_imu stub_self then Some [1, 0, 0, 0]
            else fst (get_imu_data stub_self)) = Some [0, 0, 0, 0]"
    by (simp add: stub_self_def init_def stub_config_def get_imu_data_def
          queue_get_nowait_def Queue_def)
  have l: "13 \<le> length (mujoco_init_pos stub_self)"
          "length (prev_action stub_self) = 15"
    by (simp_all add: stub_self_def init_def np_zeros_def)
  have p: "get_present_positions stub_env = Inr (replicate 13 0)"
          "get_present_velocities stub_env = Inr (replicate 13 0)"
    by (simp_all add: stub_env_def)
  have u: "\<forall>xs. length (mujoco_to_isaac stub_utils xs) = length xs"
          "length (quat_rotate_inverse stub_utils [0, 0, 0, 0] [0, 0, - 1]) = 3"
    by (simp_all add: stub_utils_def)
  have "length (replicate 13 (0::real)) = 13" "length [0, 0, 0 :: real] = 3"
    by simp_all
  from get_obs_layout [OF q p(1) this(1) p(2) this(1) l(1) u(1) u(2) this(2) l(2)]
  have "\<exists>obs. fst (get_obs stub_utils stub_env stub_self [0, 0, 0]) = Inr (Some obs)
              \<and> length obs = 51"
    unfolding Let_def by blast
  then show ?thesis
    using stub_first_pass by auto
qed

lemma loop_rma_window:
  assumes "rma (obj s)" "0 < obs_history_size (obj s)"
      and "loop u es s = Continue s1"
      and "length (obs_history (obj s)) \<le> obs_history_size (obj s)"
  shows "\<exists>new. robot_computed_obs s1 = robot_computed_obs s @ new
             \<and> length new = length es
             \<and> obs_history (obj s1) =
                 py_last_slice (obs_history_size (obj s)) (obs_history (obj s) @ new)
             \<and> obs_history_size (obj s1) = obs_history_size (obj s)"
  using assms
proof (induction es arbitrary: s)
  case Nil
  then show ?case
    by (simp add: py_last_slice_def)
next
  case (Cons e es)
  from Cons.prems(3) obtain s2 where it: "iteration u e s = Continue s2"
    and lp: "loop u es s2 = Continue s1"
    by (auto split: step.splits)
  from iteration_Continue_D [OF it] Cons.prems(1) obtain obs where
    o: "robot_computed_obs s2 = robot_computed_obs s @ [obs]"
       "obs_history (obj s2) =
          py_last_slice (obs_history_size (obj s)) (obs_history (obj s) @ [obs])"
    by auto
  have fr: "rma (obj s2)" "obs_history_size (obj s2) = obs_history_size (obj s)"
    using iteration_frame(2,3) [of u e s] it Cons.prems(1) by simp_all
  have le: "length (obs_history (obj s2)) \<le> obs_history_size (obj s2)"
    using o(2) fr(2) Cons.prems(2) by (simp add: py_last_slice_def)
  from Cons.IH [OF fr(1) _ lp le] fr(2) Cons.prems(2) obtain new where
    n: "robot_computed_obs s1 = robot_computed_obs s2 @ new" "length new = length es"
       "obs_history (obj s1) =
          py_last_slice (obs_history_size (obj s)) (obs_history (obj s2) @ new)"
       "obs_history_size (obj s1) = obs_history_size (obj s)"
    by auto
  have "obs_history (obj s1) =
          py_last_slice (obs_history_size (obj s)) (obs_history (obj s) @ obs # new)"
    using n(3) o(2) py_last_slice_twice [OF Cons.prems(2), of "obs_history (obj s) @ [obs]" new]
    by simp
  with n o show ?case
    by (intro exI [of _ "obs # new"]) simp
qed

lemma infer_action_rma_calls:
  assumes "rma self" "fst (infer_action e self obs) = Inr action"
  shows "\<exists>flat latent.
           np_flatten (py_last_slice (obs_history_size self) (obs_history self @ [obs])) = Inr flat
         \<and> adaptation_infer e flat = Inr latent
         \<and> policy_infer e (obs @ latent) = Inr action"
  using assms
  by (auto simp: infer_action_def Let_def split: sum.splits)

lemma np_flatten_D: "np_flatten rows = Inr flat \<Longrightarrow> flat = concat rows"
  by (simp add: np_flatten_def split: if_splits)

lemma loop_last_pass:
  assumes "loop u es s = Continue s1" "es \<noteq> []"
  shows "\<exists>s0. iteration u (last es) s0 = Continue s1 \<and> rma (obj s0) = rma (obj s)"
  using assms
proof (induction es arbitrary: s)
  case Nil
  then show ?case by simp
next
  case (Cons e es)
  from Cons.prems(1) obtain s2 where it: "iteration u e s = Continue s2"
    and lp: "loop u es s2 = Continue s1"
    by (auto split: step.splits)
  show ?case
  proof (cases "es = []")
    case True
    with it lp show ?thesis by auto
  next
    case False
    with Cons.IH [OF lp] iteration_frame(3) [of u e s] it show ?thesis by simp
  qed
qed

lemma iteration_rma_calls:
  assumes "iteration u e s = Continue s1" "rma (obj s)"
  shows "\<exists>latent action.
           adaptation_infer e (concat (obs_history (obj s1))) = Inr latent
         \<and> policy_infer e (last (robot_computed_obs s1) @ latent) = Inr action
         \<and> prev_action (obj s1) = action"
proof -
  from iteration_Continue_D [OF assms(1)] assms(2) obtain obs action where
    d: "fst (infer_action e
              (fst (snd (get_obs u e (sampler_activity e (obj s)) (cur_commands s)))) obs)
          = Inr action"
       "prev_action (obj s1) = action"
       "obs_history (obj s1) =
          py_last_slice (obs_history_size (obj s)) (obs_history (obj s) @ [obs])"
       "robot_computed_obs s1 = robot_computed_obs s @ [obs]"
    by auto
  let ?self1 = "fst (snd (get_obs u e (sampler_activity e (obj s)) (cur_commands s)))"
  have "rma ?self1" "obs_history ?self1 = obs_history (obj s)"
       "obs_history_size ?self1 = obs_history_size (obj s)"
    using assms(2) by (simp_all add: get_obs_frame sampler_activity_frame)
  with infer_action_rma_calls [OF _ d(1)] d(3) obtain flat latent where
    "np_flatten (obs_history (obj s1)) = Inr flat" "adaptation_infer e flat = Inr latent"
    "policy_infer e (obs @ latent) = Inr action"
    by auto
  with d np_flatten_D show ?thesis by auto
qed

text \<open>
  C5. In adaptive (RMA) mode the history starts as 15 zero rows; each pass appends the new
  observation and keeps the last 15 rows. After k completed passes the window is 15 - k
  zero rows followed by the k observations in order when k is at most 15, and the last 15
  observations from then on. The adaptation module is called on the flattened window and
  the policy on the observation followed by the latent vector.
\<close>

theorem rma_window:
  assumes "cfg_rma c"
      and "loop u es (run_init (init u c hwi_init_pos) w) = Continue s"
  shows "obs_history (init u c hwi_init_pos) = replicate 15 (replicate 51 0)
       \<and> length (robot_computed_obs s) = length es
       \<and> (length es \<le> 15 \<longrightarrow>
            obs_history (obj s) =
              replicate (15 - length es) (replicate 51 0) @ robot_computed_obs s)
       \<and> (15 \<le> length es \<longrightarrow>
            obs_history (obj s) = drop (length es - 15) (robot_computed_obs s))
       \<and> (es \<noteq> [] \<longrightarrow>
            (\<exists>latent action.
                adaptation_infer (last es) (concat (obs_history (obj s))) = Inr latent
              \<and> policy_infer (last es) (last (robot_computed_obs s) @ latent) = Inr action))"
proof -
  let ?s0 = "run_init (init u c hwi_init_pos) w"
  let ?z = "replicate 15 (replicate 51 (0::real))"
  have i: "rma (obj ?s0)" "obs_history_size (obj ?s0) = 15" "obs_history (obj ?s0) = ?z"
          "robot_computed_obs ?s0 = []"
    using assms(1) by (simp_all add: run_init_def init_def np_zeros2_def np_zeros_def)
  from loop_rma_window [OF i(1) _ assms(2)] i obtain new where
    n: "robot_computed_obs s = new" "length new = length es"
       "obs_history (obj s) = py_last_slice 15 (?z @ new)"
    by auto
  have w1: "length es \<le> 15 \<longrightarrow>
            obs_history (obj s) =
              replicate (15 - length es) (replicate 51 0) @ robot_computed_obs s"
    using n by (simp add: py_last_slice_def)
  have w2: "15 \<le> length es \<longrightarrow>
            obs_history (obj s) = drop (length es - 15) (robot_computed_obs s)"
    using n by (simp add: py_last_slice_def)
  have len: "length (robot_computed_obs s) = length es"
    using n by simp
  have calls: "es \<noteq> [] \<longrightarrow>
            (\<exists>latent action.
                adaptation_infer (last es) (concat (obs_history (obj s))) = Inr latent
              \<and> policy_infer (last es) (last (robot_computed_obs s) @ latent) = Inr action)"
  proof
    assume "es \<noteq> []"
    from loop_last_pass [OF assms(2) this] i(1) obtain s0 where
      "iteration u (last es) s0 = Continue s" "rma (obj s0)" by auto
    from iteration_rma_calls [OF this] show "\<exists>latent action.
                adaptation_infer (last es) (concat (obs_history (obj s))) = Inr latent
              \<and> policy_infer (last es) (last (robot_computed_obs s) @ latent) = Inr action"
      by blast
  qed
  have "obs_history (init u c hwi_init_pos) = ?z"
    by (simp add: init_def np_zeros2_def np_zeros_def)
  with len w1 w2 calls show ?thesis by blast
qed

lemma stub_pass_continues:
  "is_Continue (iteration stub_utils stub_env (run_init stub_self empty_world))"
  by (simp add: iteration_def after_inference_def poll_and_pace_def pace_def infer_action_def
        sampler_activity_def run_init_def empty_world_def get_obs_def stub_self_def init_def
        stub_utils_def stub_env_def stub_config_def get_imu_data_def py_last_slice_def
        np_flatten_def queue_get_nowait_def Queue_def np_broadcast_def np_zeros_def
        np_zeros2_def Let_def list_all_iff)

theorem rma_window_witness:
  "cfg_rma stub_config
   \<and> is_Continue (loop stub_utils [stub_env] (run_init stub_self empty_world))
   \<and> obs_history (obj (step_state (loop stub_utils [stub_env] (run_init stub_self empty_world))))
       = replicate 14 (replicate 51 0) @ [stub_obs]"
proof -
  let ?r = "loop stub_utils [stub_env] (run_init stub_self empty_world)"
  have c: "is_Continue ?r"
    using stub_pass_continues
    by (cases "iteration stub_utils stub_env (run_init stub_self empty_world)") simp_all
  then have h: "loop stub_utils [stub_env]
                  (run_init (init stub_utils stub_config (replicate 13 0)) empty_world)
                = Continue (step_state ?r)"
    by (cases ?r) (simp_all add: stub_self_def)
  have r: "cfg_rma stub_config" by (simp add: stub_config_def)
  from rma_window [OF r h] stub_first_trace c r show ?thesis
    by simp
qed

lemma infer_action_direct_calls:
  assumes "\<not> rma self" "fst (infer_action e self obs) = Inr action"
  shows "policy_infer e obs = Inr action"
  using assms by (simp add: infer_action_def)

lemma iteration_policy_call:
  assumes "iteration u e s = Continue s1"
  shows "\<exists>inp. policy_infer e inp = Inr (prev_action (obj s1))"
proof -
  from iteration_Continue_D [OF assms] obtain obs action where
    d: "fst (infer_action e
              (fst (snd (get_obs u e (sampler_activity e (obj s)) (cur_commands s)))) obs)
          = Inr action"
       "prev_action (obj s1) = action"
    by auto
  let ?self1 = "fst (snd (get_obs u e (sampler_activity e (obj s)) (cur_commands s)))"
  show ?thesis
  proof (cases "rma ?self1")
    case True
    from infer_action_rma_calls [OF True d(1)] d(2) show ?thesis by auto
  next
    case False
    from infer_action_direct_calls [OF False d(1)] d(2) show ?thesis by auto
  qed
qed

text \<open>
  C6. After every completed pass the stored previous action is the raw output of the
  policy call of that pass, not the scaled, offset and filtered action that is sent to the
  servos; the observation of the next pass ends with that raw output.
\<close>

theorem prev_action_is_raw_policy_output:
  assumes "iteration u e s = Continue s1"
  shows "\<exists>inp raw scaled.
           policy_infer e inp = Inr raw
         \<and> prev_action (obj s1) = raw
         \<and> np_broadcast (+) (map (\<lambda>a. a * action_scale (obj s)) raw)
               (isaac_init_pos (obj s)) = Inr scaled
         \<and> action_filter (obj s1) = lpf_push u (action_filter (obj s)) scaled
         \<and> sent_positions (out s1) = sent_positions (out s)
              @ [make_action_dict u
                   (isaac_to_mujoco u (lpf_get_filtered_action u (action_filter (obj s1))))
                   (mujoco_joints_order u)]
         \<and> (\<forall>e2 s2. iteration u e2 s1 = Continue s2 \<longrightarrow>
               (\<exists>front. last (robot_computed_obs s2) = front @ raw))"
proof -
  from iteration_policy_call [OF assms] obtain inp where
    p: "policy_infer e inp = Inr (prev_action (obj s1))" by blast
  from iteration_Continue_D [OF assms] obtain scaled where
    d: "np_broadcast (+) (map (\<lambda>a. a * action_scale (obj s)) (prev_action (obj s1)))
          (isaac_init_pos (obj s)) = Inr scaled"
       "action_filter (obj s1) = lpf_push u (action_filter (obj s)) scaled"
       "sent_positions (out s1) = sent_positions (out s)
              @ [make_action_dict u
                   (isaac_to_mujoco u
                      (lpf_get_filtered_action u (lpf_push u (action_filter (obj s)) scaled)))
                   (mujoco_joints_order u)]"
    by auto
  have nxt: "\<forall>e2 s2. iteration u e2 s1 = Continue s2 \<longrightarrow>
               (\<exists>front. last (robot_computed_obs s2) = front @ prev_action (obj s1))"
  proof (intro allI impI)
    fix e2 s2
    assume "iteration u e2 s1 = Continue s2"
    from iteration_Continue_D [OF this] obtain obs where
      o: "fst (get_obs u e2 (sampler_activity e2 (obj s1)) (cur_commands s1)) = Inr (Some obs)"
         "robot_computed_obs s2 = robot_computed_obs s1 @ [obs]"
      by auto
    from get_obs_ends_with_prev_action [OF o(1)] o(2)
    show "\<exists>front. last (robot_computed_obs s2) = front @ prev_action (obj s1)"
      by (simp add: sampler_activity_frame)
  qed
  from p d nxt show ?thesis
    by (intro exI [of _ inp] exI [of _ "prev_action (obj s1)"] exI [of _ scaled]) simp
qed

theorem prev_action_is_raw_policy_output_witness:
  "is_Continue (iteration stub_utils stub_env (run_init stub_self empty_world))
   \<and> prev_action (obj (step_state
         (iteration stub_utils stub_env (run_init stub_self empty_world)))) = replicate 15 1"
proof -
  let ?r = "iteration stub_utils stub_env (run_init stub_self empty_world)"
  have h: "?r = Continue (step_state ?r)"
    using stub_pass_continues by (cases ?r) simp_all
  from prev_action_is_raw_policy_output [OF h] obtain inp raw where
    "policy_infer stub_env inp = Inr raw" "prev_action (obj (step_state ?r)) = raw"
    by blast
  then have "prev_action (obj (step_state ?r)) = replicate 15 1"
    by (simp add: stub_env_def)
  with stub_pass_continues show ?thesis by simp
qed

lemma loop_control_freq:
  "control_freq (obj (step_state (loop u es s))) = control_freq (obj s)"
proof (induction es arbitrary: s)
  case Nil
  then show ?case by simp
next
  case (Cons e es)
  show ?case
    using iteration_frame(4) [of u e s] Cons.IH
    by (cases "iteration u e s") simp_all
qed

lemma loop_sleeps:
  assumes "loop u es s = Continue s1"
  shows "sleeps (out s1) =
           sleeps (out s) @ map (\<lambda>e. max (1 / control_freq (obj s) - took e) 0) es"
  using assms
proof (induction es arbitrary: s)
  case Nil
  then show ?case by simp
next
  case (Cons e es)
  from Cons.prems obtain s2 where it: "iteration u e s = Continue s2"
    and lp: "loop u es s2 = Continue s1"
    by (auto split: step.splits)
  from iteration_Continue_D [OF it]
  have "sleeps (out s2) = sleeps (out s) @ [max (1 / control_freq (obj s) - took e) 0]"
    by auto
  moreover have "control_freq (obj s2) = control_freq (obj s)"
    using iteration_frame(4) [of u e s] it by simp
  ultimately show ?case
    using Cons.IH [OF lp] by simp
qed

lemma pace_took_irrelevant:
  "is_Continue (pace (e\<lparr>took := t\<rparr>) s) = is_Continue (pace e s)"
  by (simp add: pace_def Let_def)

lemma poll_and_pace_took_irrelevant:
  "is_Continue (poll_and_pace (e\<lparr>took := t\<rparr>) s) = is_Continue (poll_and_pace e s)"
  by (simp add: poll_and_pace_def pace_took_irrelevant split: sum.splits)

lemma after_inference_took_irrelevant:
  "is_Continue (after_inference u (e\<lparr>took := t\<rparr>) s a) = is_Continue (after_inference u e s a)"
  by (simp add: after_inference_def Let_def poll_and_pace_took_irrelevant
        split: sum.splits option.splits)

lemma get_obs_took_irrelevant:
  "get_obs u (e\<lparr>took := t\<rparr>) self c = get_obs u e self c"
  by (simp add: get_obs_def Let_def case_prod_beta split: option.splits sum.splits)

lemma infer_action_took_irrelevant:
  "infer_action (e\<lparr>took := t\<rparr>) self obs = infer_action e self obs"
  by (simp add: infer_action_def Let_def split: sum.splits)

lemma sampler_activity_took_irrelevant:
  "sampler_activity (e\<lparr>took := t\<rparr>) self = sampler_activity e self"
  by (simp add: sampler_activity_def split: option.splits)

lemma iteration_took_irrelevant:
  "is_Continue (iteration u (e\<lparr>took := t\<rparr>) s) = is_Continue (iteration u e s)"
  by (simp add: iteration_def Let_def case_prod_beta get_obs_took_irrelevant
        infer_action_took_irrelevant sampler_activity_took_irrelevant
        after_inference_took_irrelevant
        split: sum.splits option.splits)

text \<open>
  C8. Every completed pass ends with one call of time.sleep, with the duration
  max (1 / control_freq - took) 0 of that pass alone: it is never negative, it is zero when
  the pass took at least the target period, nothing is carried over to later passes, and
  a pass that completes with one measured duration completes with any other.
\<close>

theorem pacing_sleep:
  assumes "loop u es s = Continue s1"
  shows "control_freq (obj s1) = control_freq (obj s)
       \<and> sleeps (out s1) =
           sleeps (out s) @ map (\<lambda>e. max (1 / control_freq (obj s) - took e) 0) es
       \<and> (\<forall>e \<in> set es. 0 \<le> max (1 / control_freq (obj s) - took e) 0
              \<and> (1 / control_freq (obj s) \<le> took e
                   \<longrightarrow> max (1 / control_freq (obj s) - took e) 0 = 0))
       \<and> (es \<noteq> [] \<longrightarrow> control_freq (obj s) \<noteq> 0)
       \<and> (\<forall>e0 s0 t. is_Continue (iteration u e0 s0)
              \<longrightarrow> is_Continue (iteration u (e0\<lparr>took := t\<rparr>) s0))"
proof -
  have cf: "control_freq (obj s1) = control_freq (obj s)"
    using loop_control_freq [of u es s] assms by simp
  have nz: "es \<noteq> [] \<longrightarrow> control_freq (obj s) \<noteq> 0"
  proof
    assume "es \<noteq> []"
    then obtain e es1 where "es = e # es1" by (cases es) auto
    with assms obtain s2 where "iteration u e s = Continue s2"
      by (auto split: step.splits)
    from iteration_Continue_D [OF this] show "control_freq (obj s) \<noteq> 0" by auto
  qed
  from cf nz loop_sleeps [OF assms] show ?thesis
    by (simp add: iteration_took_irrelevant)
qed

theorem pacing_sleep_witness:
  "is_Continue (loop stub_utils [stub_env\<lparr>took := 1 / 10\<rparr>] (run_init stub_self empty_world))
   \<and> sleeps (out (step_state
        (loop stub_utils [stub_env\<lparr>took := 1 / 10\<rparr>] (run_init stub_self empty_world))))
       = [0]"
proof -
  let ?e = "stub_env\<lparr>took := 1 / 10\<rparr>"
  let ?s = "run_init stub_self empty_world"
  let ?r = "loop stub_utils [?e] ?s"
  have "is_Continue (iteration stub_utils ?e ?s)"
    using stub_pass_continues by (simp only: iteration_took_irrelevant)
  then have c: "is_Continue ?r"
    by (cases "iteration stub_utils ?e ?s") simp_all
  then have h: "?r = Continue (step_state ?r)"
    by (cases ?r) simp_all
  have "control_freq (obj ?s) = 60" "sleeps (out ?s) = []"
    by (simp_all add: run_init_def stub_self_def init_def stub_config_def empty_world_def)
  with pacing_sleep [OF h] have "sleeps (out (step_state ?r)) = [0]"
    by simp
  with c show ?thesis by simp
qed

lemma loop_last_imu_data:
  "last_imu_data (obj s) \<noteq> None
     \<Longrightarrow> last_imu_data (obj (step_state (loop u es s))) \<noteq> None"
proof (induction es arbitrary: s)
  case Nil
  then show ?case by simp
next
  case (Cons e es)
  from iteration_last_imu_data [OF Cons.prems, of u e]
  show ?case
    using Cons.IH by (cases "iteration u e s") auto
qed

lemma loop_not_Break:
  "last_imu_data (obj s) \<noteq> None \<Longrightarrow> \<not> is_Break (loop u es s)"
proof (induction es arbitrary: s)
  case Nil
  then show ?case by simp
next
  case (Cons e es)
  from iteration_last_imu_data [OF Cons.prems, of u e] iteration_not_Break [OF Cons.prems, of u e]
  show ?case
    using Cons.IH by (cases "iteration u e s") auto
qed

text \<open>
  C2. With nothing ever published by the sampler, get_obs still returns an observation:
  \<open>last_imu_data\<close> starts as \<open>[0, 0, 0, 0]\<close>, not \<open>None\<close>, so the test
  \<open>orientation_quat is None\<close> never succeeds, get_obs never returns None and the loop
  never leaves through \<open>break\<close>.
\<close>

theorem missing_orientation_never_signalled:
  "last_imu_data (init u c hwi_init_pos) = Some [0, 0, 0, 0]
   \<and> items (imu_queue (init u c hwi_init_pos)) = []
   \<and> fst (get_imu_data (init u c hwi_init_pos)) = Some [0, 0, 0, 0]
   \<and> fst (get_obs u e (init u c hwi_init_pos) cmds) \<noteq> Inr None
   \<and> \<not> is_Break (loop u es (run_init (init u c hwi_init_pos) w))"
proof -
  have l: "last_imu_data (init u c hwi_init_pos) \<noteq> None"
    by (simp add: init_def)
  then have "last_imu_data (obj (run_init (init u c hwi_init_pos) w)) \<noteq> None"
    by (simp add: run_init_def)
  from loop_not_Break [OF this] get_obs_not_None [OF l] show ?thesis
    by (simp add: init_def get_imu_data_def queue_get_nowait_def Queue_def)
qed

theorem missing_orientation_never_signalled_witness:
  "sampler_offer stub_env = None
   \<and> \<not> cfg_debug_no_imu stub_config
   \<and> fst (get_obs stub_utils stub_env stub_self [0, 0, 0]) = Inr (Some stub_obs)
   \<and> \<not> is_Break (loop stub_utils [stub_env, stub_env] (run_init stub_self empty_world))"
  using missing_orientation_never_signalled
          [of stub_utils stub_config "replicate 13 0" stub_env "[0, 0, 0]"
              "[stub_env, stub_env]" empty_world]
        stub_first_pass
  by (simp add: stub_self_def stub_env_def stub_config_def)

lemma loop_trace:
  "robot_computed_obs (step_state (loop u es s)) = robot_computed_obs s @ pass_observations u es s"
proof (induction es arbitrary: s)
  case Nil
  then show ?case by simp
next
  case (Cons e es)
  let ?g = "fst (get_obs u e (sampler_activity e (obj s)) (cur_commands s))"
  show ?case
  proof (cases "\<exists>obs. ?g = Inr (Some obs)")
    case True
    then obtain obs where g: "?g = Inr (Some obs)" by blast
    have it: "robot_computed_obs (step_state (iteration u e s)) = robot_computed_obs s @ [obs]"
      using g by (simp add: iteration_obs_cases)
    show ?thesis
    proof (cases "iteration u e s")
      case (Continue s1)
      with it Cons.IH [of s1] g show ?thesis by simp
    next
      case (Break s1)
      with it g show ?thesis by simp
    next
      case (Raise x s1)
      with it g show ?thesis by simp
    qed
  next
    case False
    then have nc: "\<not> is_Continue (iteration u e s)"
      using iteration_stops_without_obs [of u e s] by blast
    have it: "robot_computed_obs (step_state (iteration u e s)) = robot_computed_obs s"
      using False by (simp add: iteration_obs_cases split: sum.splits option.splits)
    from False have po: "pass_observations u (e # es) s = []"
      by (simp split: sum.splits option.splits)
    show ?thesis
      using nc it po by (cases "iteration u e s") simp_all
  qed
qed

lemma get_obs_depends:
  assumes "debug_no_imu a = debug_no_imu b" "imu_queue a = imu_queue b"
      and "last_imu_data a = last_imu_data b" "mujoco_init_pos a = mujoco_init_pos b"
      and "dof_pos_scale a = dof_pos_scale b" "dof_vel_scale a = dof_vel_scale b"
      and "prev_action a = prev_action b"
  shows "fst (get_obs u e a c) = fst (get_obs u e b c)"
  using assms
  by (auto simp: get_obs_def get_imu_data_def Let_def case_prod_beta
        split: option.splits sum.splits prod.splits exn.splits)

lemma stub_after_first_pass:
  "debug_no_imu (obj (step_state (iteration stub_utils stub_env (run_init stub_self empty_world))))
     = False
   \<and> imu_queue (obj (step_state (iteration stub_utils stub_env (run_init stub_self empty_world))))
     = imu_queue stub_self
   \<and> last_imu_data (obj (step_state (iteration stub_utils stub_env (run_init stub_self empty_world))))
     = last_imu_data stub_self
   \<and> mujoco_init_pos (obj (step_state (iteration stub_utils stub_env (run_init stub_self empty_world))))
     = mujoco_init_pos stub_self
   \<and> dof_pos_scale (obj (step_state (iteration stub_utils stub_env (run_init stub_self empty_world))))
     = dof_pos_scale stub_self
   \<and> dof_vel_scale (obj (step_state (iteration stub_utils stub_env (run_init stub_self empty_world))))
     = dof_vel_scale stub_self
   \<and> prev_action (obj (step_state (iteration stub_utils stub_env (run_init stub_self empty_world))))
     = replicate 15 1
   \<and> cur_commands (step_state (iteration stub_utils stub_env (run_init stub_self empty_world)))
     = [0, 0, 0]"
  by (simp add: iteration_def after_inference_def poll_and_pace_def pace_def infer_action_def
        sampler_activity_def run_init_def empty_world_def get_obs_def stub_self_def init_def
        stub_utils_def stub_env_def stub_config_def get_imu_data_def py_last_slice_def
        np_flatten_def queue_get_nowait_def Queue_def np_broadcast_def np_zeros_def
        np_zeros2_def Let_def list_all_iff)

lemma stub_second_obs:
  "fst (get_obs stub_utils interrupted_env (stub_self\<lparr>prev_action := replicate 15 1\<rparr>) [0, 0, 0])
     = Inr (Some stub_obs2)"
  by (simp add: get_obs_def stub_self_def init_def stub_utils_def stub_env_def stub_config_def
        get_imu_data_def queue_get_nowait_def Queue_def np_broadcast_def np_zeros_def
        stub_obs2_def interrupted_env_def eval_nat_numeral)

lemma stub_second_pass_interrupted:
  "is_Raise (iteration stub_utils interrupted_env
       (step_state (iteration stub_utils stub_env (run_init stub_self empty_world))))
   \<and> step_exn (iteration stub_utils interrupted_env
       (step_state (iteration stub_utils stub_env (run_init stub_self empty_world))))
       = KeyboardInterrupt"
  by (simp add: iteration_def after_inference_def poll_and_pace_def pace_def infer_action_def
        sampler_activity_def run_init_def empty_world_def get_obs_def stub_self_def init_def
        stub_utils_def stub_env_def stub_config_def get_imu_data_def py_last_slice_def
        np_flatten_def queue_get_nowait_def Queue_def np_broadcast_def np_zeros_def
        np_zeros2_def Let_def list_all_iff interrupted_env_def)

lemma stub_two_pass_observations:
  "pass_observations stub_utils [stub_env, interrupted_env] (run_init stub_self empty_world)
     = [stub_obs, stub_obs2]"
proof -
  let ?s0 = "run_init stub_self empty_world"
  let ?s1 = "step_state (iteration stub_utils stub_env ?s0)"
  have c: "iteration stub_utils stub_env ?s0 = Continue ?s1"
    using stub_pass_continues by (cases "iteration stub_utils stub_env ?s0") simp_all
  have r: "iteration stub_utils interrupted_env ?s1
             = Raise KeyboardInterrupt (step_state (iteration stub_utils interrupted_env ?s1))"
    using stub_second_pass_interrupted
    by (cases "iteration stub_utils interrupted_env ?s1") simp_all
  have "sampler_activity stub_env (obj ?s0) = stub_self" "cur_commands ?s0 = [0, 0, 0]"
    by (simp_all add: sampler_activity_def stub_env_def run_init_def)
  then have g1: "fst (get_obs stub_utils stub_env (sampler_activity stub_env (obj ?s0))
                        (cur_commands ?s0)) = Inr (Some stub_obs)"
    using stub_first_pass by simp
  have sa: "sampler_activity interrupted_env (obj ?s1) = obj ?s1"
    by (simp add: sampler_activity_def interrupted_env_def stub_env_def)
  have "fst (get_obs stub_utils interrupted_env (obj ?s1) [0, 0, 0])
          = fst (get_obs stub_utils interrupted_env
                   (stub_self\<lparr>prev_action := replicate 15 1\<rparr>) [0, 0, 0])"
    by (rule get_obs_depends) (simp_all add: stub_after_first_pass, simp_all add: stub_self_def init_def stub_config_def)
  with sa stub_second_obs stub_after_first_pass
  have g2: "fst (get_obs stub_utils interrupted_env (sampler_activity interrupted_env (obj ?s1))
                        (cur_commands ?s1)) = Inr (Some stub_obs2)"
    by simp
  have "pass_observations stub_utils [interrupted_env] ?s1 = [stub_obs2]"
    using g2 by (simp, subst r) simp
  then show ?thesis
    using g1 by (simp, subst c) simp
qed

text \<open>
  C3 as amended. Every pass appends the observation that get_obs returned in that pass to
  the recorded list and keeps the earlier ones, so the list is the observations of all
  passes in order. When the loop is left through \<open>break\<close> or by KeyboardInterrupt, run
  returns after writing that whole list. Any other exception, an inference-engine failure
  among them, leaves run at the point where it was raised: nothing is written.
\<close>

theorem trace_written_on_break_or_interrupt:
  "(\<forall>e0 s0. robot_computed_obs (step_state (iteration u e0 s0)) =
       robot_computed_obs s0 @
         (case fst (get_obs u e0 (sampler_activity e0 (obj s0)) (cur_commands s0)) of
            Inr (Some obs) \<Rightarrow> [obs] | Inr None \<Rightarrow> [] | Inl x \<Rightarrow> []))
 \<and> robot_computed_obs (step_state (loop u es (run_init self w)))
       = pass_observations u es (run_init self w)
 \<and> (loop u es (run_init self w) = Break s \<longrightarrow>
      run u es self w = RunReturned (dump s)
    \<and> pickled (out (dump s)) = Some (pass_observations u es (run_init self w)))
 \<and> (loop u es (run_init self w) = Raise KeyboardInterrupt s \<longrightarrow>
      run u es self w = RunReturned (dump s)
    \<and> pickled (out (dump s)) = Some (pass_observations u es (run_init self w)))
 \<and> (loop u es (run_init self w) = Raise (Exception m) s \<longrightarrow>
      run u es self w = RunRaised (Exception m) s
    \<and> pickled (out s) = pickled w)
 \<and> (is_RunReturned (run u es self w) \<longrightarrow>
      pickled (out (result_state (run u es self w)))
        = Some (pass_observations u es (run_init self w)))"
proof -
  let ?po = "pass_observations u es (run_init self w)"
  have p: "\<forall>e0 s0. robot_computed_obs (step_state (iteration u e0 s0)) =
       robot_computed_obs s0 @
         (case fst (get_obs u e0 (sampler_activity e0 (obj s0)) (cur_commands s0)) of
            Inr (Some obs) \<Rightarrow> [obs] | Inr None \<Rightarrow> [] | Inl x \<Rightarrow> [])"
    by (simp add: iteration_obs_cases split: sum.splits option.splits)
  have t: "robot_computed_obs (step_state (loop u es (run_init self w))) = ?po"
    using loop_trace [of u es "run_init self w"] by (simp add: run_init_def)
  have brk: "loop u es (run_init self w) = Break s \<longrightarrow>
      run u es self w = RunReturned (dump s) \<and> pickled (out (dump s)) = Some ?po"
    using t by (auto simp: run_def dump_def)
  have int: "loop u es (run_init self w) = Raise KeyboardInterrupt s \<longrightarrow>
      run u es self w = RunReturned (dump s) \<and> pickled (out (dump s)) = Some ?po"
    using t by (auto simp: run_def dump_def)
  have exc: "loop u es (run_init self w) = Raise (Exception m) s \<longrightarrow>
      run u es self w = RunRaised (Exception m) s \<and> pickled (out s) = pickled w"
    using loop_frame [of u es "run_init self w"] by (auto simp: run_def run_init_def)
  have ret: "is_RunReturned (run u es self w) \<longrightarrow>
      pickled (out (result_state (run u es self w))) = Some ?po"
    using t by (auto simp: run_def dump_def split: step.splits exn.splits)
  from p t brk int exc ret show ?thesis by blast
qed

lemma failing_engine_pass:
  "is_Raise (iteration stub_utils failing_engine_env (run_init stub_self empty_world))
   \<and> step_exn (iteration stub_utils failing_engine_env (run_init stub_self empty_world))
       = Exception ''onnxruntime: inference failed''"
  by (simp add: iteration_def after_inference_def poll_and_pace_def pace_def infer_action_def
        sampler_activity_def run_init_def empty_world_def get_obs_def stub_self_def init_def
        stub_utils_def stub_env_def stub_config_def get_imu_data_def py_last_slice_def
        np_flatten_def queue_get_nowait_def Queue_def np_broadcast_def np_zeros_def
        np_zeros2_def Let_def list_all_iff failing_engine_env_def)

lemma interrupted_pass:
  "is_Raise (iteration stub_utils interrupted_env (run_init stub_self empty_world))
   \<and> step_exn (iteration stub_utils interrupted_env (run_init stub_self empty_world))
       = KeyboardInterrupt"
  by (simp add: iteration_def after_inference_def poll_and_pace_def pace_def infer_action_def
        sampler_activity_def run_init_def empty_world_def get_obs_def stub_self_def init_def
        stub_utils_def stub_env_def stub_config_def get_imu_data_def py_last_slice_def
        np_flatten_def queue_get_nowait_def Queue_def np_broadcast_def np_zeros_def
        np_zeros2_def Let_def list_all_iff interrupted_env_def)

lemma get_obs_env_cong:
  assumes "get_present_positions e2 = get_present_positions e"
      and "get_present_velocities e2 = get_present_velocities e"
  shows "get_obs u e2 self c = get_obs u e self c"
  using assms
  by (simp add: get_obs_def Let_def case_prod_beta split: option.splits sum.splits)

lemma stub_trace_one_pass:
  assumes "get_present_positions e = get_present_positions stub_env"
      and "get_present_velocities e = get_present_velocities stub_env"
      and "sampler_offer e = None"
  shows "robot_computed_obs (step_state (loop stub_utils [e] (run_init stub_self empty_world)))
           = [stub_obs]"
proof -
  have "sampler_activity e stub_self = stub_self"
    using assms(3) by (simp add: sampler_activity_def)
  then show ?thesis
    using stub_first_pass get_obs_env_cong [OF assms(1,2), of stub_utils stub_self "[0, 0, 0]"]
    unfolding loop_single
    by (simp add: iteration_obs_cases run_init_def)
qed

theorem engine_failure_loses_trace:
  "is_RunRaised (run stub_utils [failing_engine_env] stub_self empty_world)
   \<and> result_exn (run stub_utils [failing_engine_env] stub_self empty_world)
       = Exception ''onnxruntime: inference failed''
   \<and> robot_computed_obs (result_state (run stub_utils [failing_engine_env] stub_self empty_world))
       = [stub_obs]
   \<and> pickled (out (result_state (run stub_utils [failing_engine_env] stub_self empty_world)))
       = None"
proof -
  let ?s = "run_init stub_self empty_world"
  let ?r = "loop stub_utils [failing_engine_env] ?s"
  have r: "?r = Raise (Exception ''onnxruntime: inference failed'') (step_state ?r)"
    using failing_engine_pass
    by (cases "iteration stub_utils failing_engine_env ?s") simp_all
  have t: "robot_computed_obs (step_state ?r) = [stub_obs]"
    by (rule stub_trace_one_pass) (simp_all add: failing_engine_env_def stub_env_def)
  have p: "pickled (out (step_state ?r)) = None"
    using loop_frame [of stub_utils "[failing_engine_env]" ?s]
    by (simp add: run_init_def empty_world_def)
  have "run stub_utils [failing_engine_env] stub_self empty_world
          = RunRaised (Exception ''onnxruntime: inference failed'') (step_state ?r)"
    unfolding run_def by (subst r) simp
  with t p show ?thesis by simp
qed

theorem trace_written_on_break_or_interrupt_witness:
  "is_RunReturned (run stub_utils [stub_env, interrupted_env] stub_self empty_world)
   \<and> pickled (out (result_state
        (run stub_utils [stub_env, interrupted_env] stub_self empty_world)))
       = Some [stub_obs, stub_obs2]"
proof -
  let ?s0 = "run_init stub_self empty_world"
  let ?s1 = "step_state (iteration stub_utils stub_env ?s0)"
  let ?r = "loop stub_utils [stub_env, interrupted_env] ?s0"
  have c: "iteration stub_utils stub_env ?s0 = Continue ?s1"
    using stub_pass_continues by (cases "iteration stub_utils stub_env ?s0") simp_all
  have i: "iteration stub_utils interrupted_env ?s1
             = Raise KeyboardInterrupt (step_state (iteration stub_utils interrupted_env ?s1))"
    using stub_second_pass_interrupted
    by (cases "iteration stub_utils interrupted_env ?s1") simp_all
  have "?r = iteration stub_utils interrupted_env ?s1"
    by (simp, subst c, simp, subst (1 2) i, simp)
  with i have r: "?r = Raise KeyboardInterrupt (step_state ?r)"
    by simp
  from trace_written_on_break_or_interrupt
         [of stub_utils "[stub_env, interrupted_env]" stub_self empty_world "step_state ?r"]
       r stub_two_pass_observations
  show ?thesis by simp
qed

lemma imu_worker_append:
  "imu_worker sp (rs @ rs2) w =
     (case imu_worker sp rs w of
        Stepped w1 \<Rightarrow> imu_worker sp rs2 w1
      | Blocked \<Rightarrow> Blocked
      | Died x \<Rightarrow> Died x)"
  by (induction rs arbitrary: w) (auto split: worker_step.splits)

lemma imu_worker_failed_read:
  assumes "pc w = AtRead" "read_orientation sp r = Inl (Exception m)"
  shows "imu_worker_step sp r w = Stepped (w\<lparr>worker_stdout := worker_stdout w @ [m]\<rparr>)"
  using assms by (simp add: imu_worker_step_def)

text \<open>
  C7. Whenever the body of \<open>try\<close> in the sampler loop raises an Exception (the sensor
  read or the conversion of what it returned), the sampler prints the error and is back
  at the read at once: no sleep, no publish, nothing changed in the object shared with
  the scheduler. No sequence of such failures ends or suspends the loop.
\<close>

theorem sampler_survives_read_failures:
  assumes "pc w = AtRead"
      and "map (read_orientation sp) rs = map (\<lambda>m. Inl (Exception m)) ms"
  shows "imu_worker sp rs w = Stepped (w\<lparr>worker_stdout := worker_stdout w @ ms\<rparr>)
       \<and> pc (w\<lparr>worker_stdout := worker_stdout w @ ms\<rparr>) = AtRead
       \<and> worker_sleeps (w\<lparr>worker_stdout := worker_stdout w @ ms\<rparr>) = worker_sleeps w
       \<and> shared (w\<lparr>worker_stdout := worker_stdout w @ ms\<rparr>) = shared w
       \<and> get_imu_data (shared (w\<lparr>worker_stdout := worker_stdout w @ ms\<rparr>))
           = get_imu_data (shared w)"
proof -
  have "imu_worker sp rs w = Stepped (w\<lparr>worker_stdout := worker_stdout w @ ms\<rparr>)"
    using assms
  proof (induction rs arbitrary: w ms)
    case Nil
    then show ?case by simp
  next
    case (Cons r rs)
    from Cons.prems(2) obtain m ms1 where ms: "ms = m # ms1"
      and r: "read_orientation sp r = Inl (Exception m)"
      and rest: "map (read_orientation sp) rs = map (\<lambda>m. Inl (Exception m)) ms1"
      by (cases ms) auto
    let ?w1 = "w\<lparr>worker_stdout := worker_stdout w @ [m]\<rparr>"
    have st: "imu_worker_step sp r w = Stepped ?w1"
      using imu_worker_failed_read [OF Cons.prems(1) r] .
    have "pc ?w1 = AtRead" using Cons.prems(1) by simp
    from Cons.IH [OF this rest] st ms show ?case by simp
  qed
  with assms(1) show ?thesis by simp
qed

theorem sampler_survives_read_failures_witness:
  "imu_worker stub_scipy failed_reads stub_sampler =
     Stepped (stub_sampler\<lparr>worker_stdout :=
        [''UART read error'', ''ValueError: expected 4 components'', ''UART read error'']\<rparr>)"
proof -
  have a: "pc stub_sampler = AtRead" "worker_stdout stub_sampler = []"
    by (simp_all add: stub_sampler_def)
  have b: "map (read_orientation stub_scipy) failed_reads =
             map (\<lambda>m. Inl (Exception m))
               [''UART read error'', ''ValueError: expected 4 components'', ''UART read error'']"
    by (simp add: failed_reads_def read_orientation_def stub_scipy_def)
  from sampler_survives_read_failures [OF a(1) b] a(2) show ?thesis by simp
qed

lemma queue_put_single_slot:
  assumes "maxsize q = 1"
  shows "queue_put q v = (if items q = [] then Some (q\<lparr>items := [v]\<rparr>) else None)"
  using assms by (cases "items q") (simp_all add: queue_put_def queue_full_def)

lemma get_imu_data_cases:
  "get_imu_data self =
     (case items (imu_queue self) of
        [] \<Rightarrow> (last_imu_data self, self)
      | x # rest \<Rightarrow>
          (Some x, self\<lparr>last_imu_data := Some x,
                          imu_queue := (imu_queue self)\<lparr>items := rest\<rparr>\<rparr>))"
  by (simp add: get_imu_data_def queue_get_nowait_def Let_def split: list.splits)

text \<open>
  C1 as amended. The sampler's publish stores the sample only when the one-slot queue is
  empty; while an unread value is in the slot the publish is suspended and the slot keeps
  the older value. The queue never holds more than one value. The scheduler's read never
  waits: it takes the value when there is one and otherwise keeps the last value read.
\<close>

theorem publish_waits_for_empty_slot:
  assumes "maxsize (imu_queue (shared w)) = 1"
      and "length (items (imu_queue (shared w))) \<le> 1"
  shows "(\<forall>v. pc w = AtPut v \<longrightarrow>
            imu_worker_step sp r w =
              (if items (imu_queue (shared w)) = []
               then Stepped (w\<lparr>shared := (shared w)\<lparr>imu_queue :=
                                 (imu_queue (shared w))\<lparr>items := [v]\<rparr>\<rparr>,
                               pc := AtSleep\<rparr>)
               else Blocked))
       \<and> (\<forall>w1. imu_worker_step sp r w = Stepped w1 \<longrightarrow>
              maxsize (imu_queue (shared w1)) = 1
            \<and> length (items (imu_queue (shared w1))) \<le> 1)
       \<and> get_imu_data (shared w) =
           (case items (imu_queue (shared w)) of
              [] \<Rightarrow> (last_imu_data (shared w), shared w)
            | x # rest \<Rightarrow>
                (Some x, (shared w)\<lparr>last_imu_data := Some x,
                                     imu_queue := (imu_queue (shared w))\<lparr>items := []\<rparr>\<rparr>))
       \<and> maxsize (imu_queue (snd (get_imu_data (shared w)))) = 1
       \<and> items (imu_queue (snd (get_imu_data (shared w)))) = []"
proof -
  have put: "\<forall>v. pc w = AtPut v \<longrightarrow>
            imu_worker_step sp r w =
              (if items (imu_queue (shared w)) = []
               then Stepped (w\<lparr>shared := (shared w)\<lparr>imu_queue :=
                                 (imu_queue (shared w))\<lparr>items := [v]\<rparr>\<rparr>,
                               pc := AtSleep\<rparr>)
               else Blocked)"
    by (simp add: imu_worker_step_def queue_put_single_slot [OF assms(1)])
  have inv: "\<forall>w1. imu_worker_step sp r w = Stepped w1 \<longrightarrow>
              maxsize (imu_queue (shared w1)) = 1
            \<and> length (items (imu_queue (shared w1))) \<le> 1"
    using assms
    by (cases "pc w")
       (auto simp: imu_worker_step_def queue_put_single_slot [OF assms(1)]
          split: sum.splits exn.splits if_splits prod.splits)
  have rest: "\<And>x rest. items (imu_queue (shared w)) = x # rest \<Longrightarrow> rest = []"
    using assms(2) by simp
  have get: "get_imu_data (shared w) =
           (case items (imu_queue (shared w)) of
              [] \<Rightarrow> (last_imu_data (shared w), shared w)
            | x # rest \<Rightarrow>
                (Some x, (shared w)\<lparr>last_imu_data := Some x,
                                     imu_queue := (imu_queue (shared w))\<lparr>items := []\<rparr>\<rparr>))"
    using rest by (simp add: get_imu_data_cases split: list.splits)
  have after: "maxsize (imu_queue (snd (get_imu_data (shared w)))) = 1
       \<and> items (imu_queue (snd (get_imu_data (shared w)))) = []"
    using assms(1) by (simp add: get split: list.splits)
  from put inv get after show ?thesis by blast
qed

theorem publish_waits_for_empty_slot_witness:
  "imu_worker_step stub_scipy reading_a (stub_sampler\<lparr>pc := AtPut [6, 7, 5, 1]\<rparr>) =
     Stepped (stub_sampler\<lparr>shared := stub_self\<lparr>imu_queue := \<lparr>maxsize = 1, items = [[6, 7, 5, 1]]\<rparr>\<rparr>,
                           pc := AtSleep\<rparr>)"
proof -
  let ?w = "stub_sampler\<lparr>pc := AtPut [6, 7, 5, 1]\<rparr>"
  have q: "imu_queue (shared stub_sampler) = \<lparr>maxsize = 1, items = []\<rparr>"
    by (simp add: stub_sampler_def stub_self_def init_def Queue_def)
  have a: "maxsize (imu_queue (shared ?w)) = 1" "length (items (imu_queue (shared ?w))) \<le> 1"
    by (simp_all add: q)
  from publish_waits_for_empty_slot [OF a, of stub_scipy reading_a] q show ?thesis
    by (simp add: stub_sampler_def)
qed

theorem publish_blocks_on_unread_value:
  "imu_worker stub_scipy [reading_a, reading_a, reading_a, reading_b] stub_sampler =
     Stepped \<lparr>pc = AtPut [6, 7, 5, 1],
              shared = stub_self\<lparr>imu_queue := \<lparr>maxsize = 1, items = [[2, 3, 1, 1]]\<rparr>\<rparr>,
              worker_stdout = [], worker_sleeps = [1 / 120]\<rparr>
   \<and> imu_worker stub_scipy [reading_a, reading_a, reading_a, reading_b, reading_b] stub_sampler
       = Blocked"
  by (simp add: imu_worker_step_def read_orientation_def stub_scipy_def stub_sampler_def
        reading_a_def reading_b_def queue_put_def queue_full_def deg2rad_def
        stub_self_def init_def stub_config_def Queue_def)

end
